theory Spec2Isabelle
  imports Complex_Main
begin

section \<open>Double-precision values\<close>

text \<open>
  The program computes with C++ \<open>double\<close>. A finite double is modelled by the real number
  it denotes (rounding is not modelled); the three non-finite values are kept apart because
  the code tests \<open>std::isfinite\<close> and relies on every comparison with NaN being false.
\<close>

datatype dbl = Fin real | PInf | MInf | NaN

fun isfinite :: "dbl \<Rightarrow> bool" where
  "isfinite (Fin x) = True"
| "isfinite PInf = False"
| "isfinite MInf = False"
| "isfinite NaN = False"

text \<open>\<open>a < b\<close> on doubles: false as soon as one side is NaN.\<close>

fun dbl_less :: "dbl \<Rightarrow> dbl \<Rightarrow> bool" where
  "dbl_less (Fin x) (Fin y) = (x < y)"
| "dbl_less (Fin x) PInf = True"
| "dbl_less (Fin x) MInf = False"
| "dbl_less (Fin x) NaN = False"
| "dbl_less PInf b = False"
| "dbl_less MInf (Fin y) = True"
| "dbl_less MInf PInf = True"
| "dbl_less MInf MInf = False"
| "dbl_less MInf NaN = False"
| "dbl_less NaN b = False"

text \<open>\<open>a >= b\<close> on doubles: false as soon as one side is NaN.\<close>

fun dbl_ge :: "dbl \<Rightarrow> dbl \<Rightarrow> bool" where
  "dbl_ge (Fin x) (Fin y) = (x \<ge> y)"
| "dbl_ge (Fin x) PInf = False"
| "dbl_ge (Fin x) MInf = True"
| "dbl_ge (Fin x) NaN = False"
| "dbl_ge PInf (Fin y) = True"
| "dbl_ge PInf PInf = True"
| "dbl_ge PInf MInf = True"
| "dbl_ge PInf NaN = False"
| "dbl_ge MInf (Fin y) = False"
| "dbl_ge MInf PInf = False"
| "dbl_ge MInf MInf = True"
| "dbl_ge MInf NaN = False"
| "dbl_ge NaN b = False"

text \<open>\<open>n / d\<close> for finite operands, the divisor never being the negative zero.\<close>

definition dbl_div :: "real \<Rightarrow> real \<Rightarrow> dbl" where
  "dbl_div n d =
     (if d \<noteq> 0 then Fin (n / d)
      else if n > 0 then PInf
      else if n < 0 then MInf
      else NaN)"

text \<open>\<open>a + b\<close> on doubles.\<close>

fun dbl_add :: "dbl \<Rightarrow> dbl \<Rightarrow> dbl" where
  "dbl_add (Fin x) (Fin y) = Fin (x + y)"
| "dbl_add NaN b = NaN"
| "dbl_add a NaN = NaN"
| "dbl_add PInf MInf = NaN"
| "dbl_add MInf PInf = NaN"
| "dbl_add PInf b = PInf"
| "dbl_add a PInf = PInf"
| "dbl_add MInf b = MInf"
| "dbl_add a MInf = MInf"


text \<open>Conversion of a double to \<open>int\<close>: truncation towards zero.\<close>

definition trunc_int :: "real \<Rightarrow> int" where
  "trunc_int x = (if x \<ge> 0 then \<lfloor>x\<rfloor> else \<lceil>x\<rceil>)"

text \<open>\<open>std::round\<close>: to the nearest integer, halfway cases away from zero.\<close>

definition c_round :: "real \<Rightarrow> real" where
  "c_round x = (if x \<ge> 0 then of_int \<lfloor>x + 1 / 2\<rfloor> else of_int \<lceil>x - 1 / 2\<rceil>)"

section \<open>Record length of the disk cache (nextPowerOf2, writeTrace)\<close>

text \<open>
  \<open>nextPowerOf2<int>(a, min, max)\<close>: \<open>b\<close> starts at \<open>min\<close> and is doubled while \<open>b < a\<close>;
  as soon as the doubled value exceeds \<open>max\<close> the function returns \<open>-1\<close>. The loop need not
  end for every \<open>min\<close> (with \<open>min = 0\<close> it never does), so not returning is the value \<open>None\<close>.
  With the arguments of \<open>writeTrace\<close> the variable stays below \<open>2 ^ 21\<close>, inside the range
  of the 32-bit \<open>int\<close> of the source.
\<close>

partial_function (option) nextPowerOf2_loop :: "int \<Rightarrow> int \<Rightarrow> int \<Rightarrow> int option" where
  "nextPowerOf2_loop b a mx =
     (if b < a
      then (if 2 * b > mx then Some (- 1) else nextPowerOf2_loop (2 * b) a mx)
      else Some b)"

definition nextPowerOf2 :: "int \<Rightarrow> int \<Rightarrow> int \<Rightarrow> int option" where
  "nextPowerOf2 a mn mx = nextPowerOf2_loop mn a mx"

text \<open>
  \<open>writeTrace\<close>: the requested record length is the payload (\<open>size * bytes\<close>) plus 64, passed
  through \<open>nextPowerOf2\<close> with bounds 128 and 1048576; the record is written only when the
  result is positive.
\<close>

datatype write_result = Written int | NotWritten

definition writeTrace :: "int \<Rightarrow> int \<Rightarrow> write_result option" where
  "writeTrace sz bytes =
     (case nextPowerOf2 (sz * bytes + 64) 128 1048576 of
        None \<Rightarrow> None
      | Some reclen \<Rightarrow> Some (if reclen > 0 then Written reclen else NotWritten))"

section \<open>Ellipsoids and octants\<close>

record Ellipsoid =
  axis_a :: real
  axis_b :: real
  axis_c :: real
  lat :: real
  lon :: real
  depth :: real
  orientation :: real

text \<open>The constructor of \<open>HddEllipsoid\<close>.\<close>

definition HddEllipsoid :: "real \<Rightarrow> real \<Rightarrow> real \<Rightarrow> real \<Rightarrow> Ellipsoid" where
  "HddEllipsoid axis_len la lo de =
     \<lparr>axis_a = axis_len / 2, axis_b = axis_len / 2, axis_c = axis_len,
      lat = la, lon = lo, depth = de, orientation = 0\<rparr>"

datatype error = InvalidArgument | RuntimeError

text \<open>
  \<open>HddEllipsoid::isInQuadrant\<close>: an exception for a quadrant outside 1..8, then six sign
  tests, each of which excludes four quadrants. Coordinates are compared as real numbers.
\<close>

definition isInQuadrant :: "Ellipsoid \<Rightarrow> real \<Rightarrow> real \<Rightarrow> real \<Rightarrow> int \<Rightarrow> error + bool" where
  "isInQuadrant e la lo de quadrant =
     (if quadrant < 1 \<or> quadrant > 8 then Inl InvalidArgument
      else if de < depth e \<and> quadrant \<in> {1, 2, 3, 4} then Inr False
      else if de > depth e \<and> quadrant \<in> {5, 6, 7, 8} then Inr False
      else if lo < lon e \<and> quadrant \<in> {1, 4, 5, 8} then Inr False
      else if lo > lon e \<and> quadrant \<in> {2, 3, 6, 7} then Inr False
      else if la < lat e \<and> quadrant \<in> {1, 2, 5, 6} then Inr False
      else if la > lat e \<and> quadrant \<in> {3, 4, 7, 8} then Inr False
      else Inr True)"

section \<open>Signal to noise ratio (S2Nratio)\<close>

text \<open>
  The offsets and the sampling frequency are doubles, NaN and the infinities included.
  \<open>a * b\<close> on doubles (the sign of a zero is not modelled):
\<close>

fun dbl_mul :: "dbl \<Rightarrow> dbl \<Rightarrow> dbl" where
  "dbl_mul (Fin x) (Fin y) = Fin (x * y)"
| "dbl_mul NaN b = NaN"
| "dbl_mul a NaN = NaN"
| "dbl_mul (Fin x) PInf = (if x > 0 then PInf else if x < 0 then MInf else NaN)"
| "dbl_mul (Fin x) MInf = (if x > 0 then MInf else if x < 0 then PInf else NaN)"
| "dbl_mul PInf (Fin y) = (if y > 0 then PInf else if y < 0 then MInf else NaN)"
| "dbl_mul MInf (Fin y) = (if y > 0 then MInf else if y < 0 then PInf else NaN)"
| "dbl_mul PInf PInf = PInf"
| "dbl_mul PInf MInf = MInf"
| "dbl_mul MInf PInf = MInf"
| "dbl_mul MInf MInf = PInf"

text \<open>\<open>std::round\<close> on doubles: NaN and the infinities are returned as they are.\<close>

fun dbl_round :: "dbl \<Rightarrow> dbl" where
  "dbl_round (Fin x) = Fin (c_round x)"
| "dbl_round PInf = PInf"
| "dbl_round MInf = MInf"
| "dbl_round NaN = NaN"

text \<open>
  \<open>std::max(a, b)\<close> is \<open>(a < b) ? b : a\<close> and \<open>std::min(a, b)\<close> is \<open>(b < a) ? b : a\<close>: a NaN
  in the first argument is returned, since every comparison with it is false.
\<close>

definition std_max :: "dbl \<Rightarrow> dbl \<Rightarrow> dbl" where
  "std_max a b = (if dbl_less a b then b else a)"

definition std_min :: "dbl \<Rightarrow> dbl \<Rightarrow> dbl" where
  "std_min a b = (if dbl_less b a then b else a)"

text \<open>
  The conversion of a double to \<open>int\<close> in \<open>const int noiseStart = secToSample(...)\<close>:
  truncation for a finite value in range. For NaN and the infinities the C++ conversion is
  undefined; the value taken here is the one the x86 conversion instruction delivers,
  \<open>INT_MIN\<close>.
\<close>

fun dbl_to_int :: "dbl \<Rightarrow> int" where
  "dbl_to_int (Fin x) = trunc_int x"
| "dbl_to_int PInf = - 2147483648"
| "dbl_to_int MInf = - 2147483648"
| "dbl_to_int NaN = - 2147483648"

text \<open>
  The lambda \<open>secToSample\<close> of \<open>S2Nratio\<close>:
  \<open>std::min(std::max(std::round(sec * freq), 0.), size - 1.)\<close>.
\<close>

definition secToSample :: "dbl \<Rightarrow> int \<Rightarrow> dbl \<Rightarrow> dbl" where
  "secToSample freq sz sec =
     std_min (std_max (dbl_round (dbl_mul sec freq)) (Fin 0)) (Fin (of_int sz - 1))"

text \<open>The loops \<open>for (i = start; i < end; i++) m = std::max(std::abs(data[i]), m)\<close>.\<close>

fun maxAbs :: "real list \<Rightarrow> nat list \<Rightarrow> real \<Rightarrow> real" where
  "maxAbs data [] m = m"
| "maxAbs data (i # is) m = maxAbs data is (max \<bar>data ! i\<bar> m)"

text \<open>
  \<open>S2Nratio\<close> on a trace given by its samples and sampling frequency; \<open>pickOffset\<close> is the
  pick time minus the start time of the trace, in seconds. The branch that logs
  "noise/signal windows exceed waveform boundaries" and returns \<open>-1\<close> is \<open>Inl RuntimeError\<close>.
\<close>

definition S2Nratio :: "real list \<Rightarrow> dbl \<Rightarrow> dbl \<Rightarrow> dbl \<Rightarrow> dbl \<Rightarrow> dbl \<Rightarrow> dbl \<Rightarrow> error + dbl" where
  "S2Nratio data freq pickOffset noiseOffsetStart noiseOffsetEnd signalOffsetStart signalOffsetEnd =
     (let sz = int (length data);
          noiseStart = dbl_to_int (secToSample freq sz (dbl_add noiseOffsetStart pickOffset));
          noiseEnd = dbl_to_int (secToSample freq sz (dbl_add noiseOffsetEnd pickOffset));
          signalStart = dbl_to_int (secToSample freq sz (dbl_add signalOffsetStart pickOffset));
          signalEnd = dbl_to_int (secToSample freq sz (dbl_add signalOffsetEnd pickOffset))
      in if min (min noiseStart noiseEnd) (min signalStart signalEnd) < 0
            \<or> max (max noiseStart noiseEnd) (max signalStart signalEnd) \<ge> sz
         then Inl RuntimeError
         else (let noiseMax = maxAbs data [nat noiseStart..<nat noiseEnd] (- 1);
                   signalMax = maxAbs data [nat signalStart..<nat signalEnd] (- 1)
               in Inr (dbl_div signalMax noiseMax)))"


section \<open>Catalog\<close>

record Station =
  st_id :: string
  st_latitude :: real
  st_longitude :: real
  st_elevation :: real
  st_networkCode :: string
  st_stationCode :: string

record Event =
  ev_id :: nat
  ev_time :: real
  ev_latitude :: real
  ev_longitude :: real
  ev_depth :: real

record Phase =
  eventId :: nat
  stationId :: string
  time :: real
  weight :: real
  type :: string
  networkCode :: string
  stationCode :: string
  locationCode :: string
  channelCode :: string
  isManual :: bool

text \<open>
  \<open>std::map\<close> and \<open>std::multimap\<close> are lists of key-value pairs in ascending key order;
  entries of a multimap with equal keys stay in insertion order.
\<close>

record Catalog =
  stations :: "(string \<times> Station) list"
  events :: "(nat \<times> Event) list"
  phases :: "(nat \<times> Phase) list"

text \<open>\<open>multimap::emplace\<close>: after the last entry whose key is not greater.\<close>

definition mm_emplace :: "'k::linorder \<Rightarrow> 'v \<Rightarrow> ('k \<times> 'v) list \<Rightarrow> ('k \<times> 'v) list" where
  "mm_emplace k v m = takeWhile (\<lambda>kv. fst kv \<le> k) m @ (k, v) # dropWhile (\<lambda>kv. fst kv \<le> k) m"

text \<open>\<open>multimap::equal_range\<close>: the values stored under one key, in order.\<close>

definition equal_range :: "'k \<Rightarrow> ('k \<times> 'v) list \<Rightarrow> 'v list" where
  "equal_range k m = map snd (filter (\<lambda>kv. fst kv = k) m)"

section \<open>Selection of the preferred phases (filterOutPhases)\<close>

text \<open>\<open>std::distance(v.begin(), std::find(v.begin(), v.end(), x))\<close>.\<close>

fun find_distance :: "'a \<Rightarrow> 'a list \<Rightarrow> nat" where
  "find_distance x [] = 0"
| "find_distance x (y # ys) = (if y = x then 0 else Suc (find_distance x ys))"

text \<open>
  The loop over \<open>filtered.equal_range(event.id)\<close>: the first already selected phase of the
  event with the same type, the same station and a smaller priority index is overwritten by
  the new phase. The Boolean is the flag \<open>inserted\<close>.
\<close>

fun replace_existing ::
  "string list \<Rightarrow> nat \<Rightarrow> Phase \<Rightarrow> nat \<Rightarrow> (nat \<times> Phase) list \<Rightarrow> (nat \<times> Phase) list \<times> bool" where
  "replace_existing toKeep evId phase priority [] = ([], False)"
| "replace_existing toKeep evId phase priority ((k, existingPhase) # rest) =
     (if k = evId \<and> type existingPhase = type phase
         \<and> stationId existingPhase = stationId phase
         \<and> find_distance (type existingPhase) toKeep < priority
      then ((k, phase) # rest, True)
      else (let (rest', inserted) = replace_existing toKeep evId phase priority rest
            in ((k, existingPhase) # rest', inserted)))"

text \<open>The body shared by the "P phase" and the "S phase" blocks.\<close>

definition select_phase ::
  "string list \<Rightarrow> nat \<Rightarrow> Phase \<Rightarrow> (nat \<times> Phase) list \<Rightarrow> (nat \<times> Phase) list" where
  "select_phase toKeep evId phase filtered =
     (let priority = find_distance (type phase) toKeep;
          (filtered', inserted) = replace_existing toKeep evId phase priority filtered
      in if \<not> inserted then mm_emplace (eventId phase) phase filtered' else filtered')"

text \<open>The loop over the phases of one event; the state is \<open>(filteredP, filteredS)\<close>.\<close>

fun filter_event_phases ::
  "string list \<Rightarrow> string list \<Rightarrow> nat \<Rightarrow> Phase list
     \<Rightarrow> (nat \<times> Phase) list \<times> (nat \<times> Phase) list
     \<Rightarrow> (nat \<times> Phase) list \<times> (nat \<times> Phase) list" where
  "filter_event_phases PphaseToKeep SphaseToKeep evId [] (filteredP, filteredS) =
     (filteredP, filteredS)"
| "filter_event_phases PphaseToKeep SphaseToKeep evId (phase # rest) (filteredP, filteredS) =
     (if type phase \<in> set PphaseToKeep
      then filter_event_phases PphaseToKeep SphaseToKeep evId rest
             (select_phase PphaseToKeep evId phase filteredP, filteredS)
      else if type phase \<in> set SphaseToKeep
      then filter_event_phases PphaseToKeep SphaseToKeep evId rest
             (filteredP, select_phase SphaseToKeep evId phase filteredS)
      else filter_event_phases PphaseToKeep SphaseToKeep evId rest (filteredP, filteredS))"

text \<open>The loop over the events of the catalog.\<close>

fun filter_events ::
  "string list \<Rightarrow> string list \<Rightarrow> (nat \<times> Phase) list \<Rightarrow> (nat \<times> Event) list
     \<Rightarrow> (nat \<times> Phase) list \<times> (nat \<times> Phase) list
     \<Rightarrow> (nat \<times> Phase) list \<times> (nat \<times> Phase) list" where
  "filter_events PphaseToKeep SphaseToKeep catPhases [] st = st"
| "filter_events PphaseToKeep SphaseToKeep catPhases ((k, event) # rest) st =
     filter_events PphaseToKeep SphaseToKeep catPhases rest
       (filter_event_phases PphaseToKeep SphaseToKeep (ev_id event)
          (equal_range (ev_id event) catPhases) st)"

text \<open>The two final loops: the type is replaced by the generic name.\<close>

fun rename_phases :: "string \<Rightarrow> (nat \<times> Phase) list \<Rightarrow> (nat \<times> Phase) list \<Rightarrow> (nat \<times> Phase) list" where
  "rename_phases name [] filteredPhases = filteredPhases"
| "rename_phases name ((k, phase) # rest) filteredPhases =
     rename_phases name rest
       (mm_emplace (eventId phase) (phase\<lparr>type := name\<rparr>) filteredPhases)"

definition filterOutPhases :: "Catalog \<Rightarrow> string list \<Rightarrow> string list \<Rightarrow> Catalog" where
  "filterOutPhases catalog PphaseToKeep SphaseToKeep =
     (let (filteredP, filteredS) =
            filter_events PphaseToKeep SphaseToKeep (phases catalog) (events catalog) ([], []);
          filteredPhases = rename_phases ''S'' filteredS (rename_phases ''P'' filteredP [])
      in \<lparr>stations = stations catalog, events = events catalog, phases = filteredPhases\<rparr>)"

text \<open>
  The invariant of the catalog after filtering: no two phases of the catalog share event,
  station and type.
\<close>

definition one_phase_per_station_type :: "Catalog \<Rightarrow> bool" where
  "one_phase_per_station_type catalog =
     distinct (map (\<lambda>kv. (fst kv, stationId (snd kv), type (snd kv))) (phases catalog))"

section \<open>Neighbour selection: the sweep over ellipsoids and quadrants\<close>

text \<open>
  \<open>Ellipsoid::isInside\<close>. \<open>Math::Geo::delazi\<close> and \<open>Math::Geo::deg2km\<close> belong to the
  SeisComP library and are parameters: \<open>delazi lat1 lon1 lat2 lon2\<close> gives the distance in
  degrees and the azimuth. An axis of length zero makes a term infinite or NaN, and the
  comparison \<open>one <= 1\<close> false.
\<close>

definition Ellipsoid_isInside ::
  "(real \<Rightarrow> real \<Rightarrow> real \<Rightarrow> real \<Rightarrow> real \<times> real) \<Rightarrow> (real \<Rightarrow> real)
     \<Rightarrow> Ellipsoid \<Rightarrow> real \<Rightarrow> real \<Rightarrow> real \<Rightarrow> bool" where
  "Ellipsoid_isInside delazi deg2km e la lo de =
     (let (distance0, az0) = delazi la lo (lat e) (lon e);
          distance = deg2km distance0;
          az = az0 + orientation e;
          dist_x = distance * cos az;
          dist_y = distance * sin az;
          dist_z = \<bar>de - depth e\<bar>;
          one = dbl_add (dbl_add (dbl_div (dist_x ^ 2) (axis_a e))
                                 (dbl_div (dist_y ^ 2) (axis_b e)))
                        (dbl_div (dist_z ^ 2) (axis_c e))
      in dbl_ge (Fin 1) one)"

text \<open>\<open>HddEllipsoid::isInside\<close> and \<open>HddEllipsoid::isOutside\<close>, for a given \<open>Ellipsoid::isInside\<close>.\<close>

definition isInside ::
  "(Ellipsoid \<Rightarrow> real \<Rightarrow> real \<Rightarrow> real \<Rightarrow> bool)
     \<Rightarrow> Ellipsoid \<Rightarrow> real \<Rightarrow> real \<Rightarrow> real \<Rightarrow> int \<Rightarrow> error + bool" where
  "isInside ins e la lo de quadrant =
     (case isInQuadrant e la lo de quadrant of
        Inl err \<Rightarrow> Inl err
      | Inr b \<Rightarrow> Inr (b \<and> ins e la lo de))"

definition isOutside ::
  "(Ellipsoid \<Rightarrow> real \<Rightarrow> real \<Rightarrow> real \<Rightarrow> bool)
     \<Rightarrow> Ellipsoid \<Rightarrow> real \<Rightarrow> real \<Rightarrow> real \<Rightarrow> int \<Rightarrow> error + bool" where
  "isOutside ins e la lo de quadrant =
     (case isInQuadrant e la lo de quadrant of
        Inl err \<Rightarrow> Inl err
      | Inr b \<Rightarrow> Inr (b \<and> \<not> ins e la lo de))"

text \<open>
  The list \<open>ellipsoids\<close>: \<open>numEllipsoids - 1\<close> ellipsoids of sizes \<open>maxEllipsoidSize\<close>,
  \<open>maxEllipsoidSize / 2\<close>, ... and a last one of size 0.
\<close>

fun halving_ellipsoids :: "nat \<Rightarrow> real \<Rightarrow> real \<Rightarrow> real \<Rightarrow> real \<Rightarrow> Ellipsoid list" where
  "halving_ellipsoids 0 currSize la lo de = []"
| "halving_ellipsoids (Suc n) currSize la lo de =
     HddEllipsoid currSize la lo de # halving_ellipsoids n (currSize / 2) la lo de"

definition make_ellipsoids :: "int \<Rightarrow> int \<Rightarrow> Event \<Rightarrow> Ellipsoid list" where
  "make_ellipsoids numEllipsoids maxEllipsoidSize refEv =
     halving_ellipsoids (nat (numEllipsoids - 1)) (of_int maxEllipsoidSize)
       (ev_latitude refEv) (ev_longitude refEv) (ev_depth refEv)
     @ [HddEllipsoid 0 (ev_latitude refEv) (ev_longitude refEv) (ev_depth refEv)]"

text \<open>The variable \<open>found\<close> of the innermost loop, for one ellipsoid index, quadrant and event.\<close>

definition found_in_cell ::
  "(Ellipsoid \<Rightarrow> real \<Rightarrow> real \<Rightarrow> real \<Rightarrow> bool) \<Rightarrow> Ellipsoid list
     \<Rightarrow> nat \<Rightarrow> int \<Rightarrow> Event \<Rightarrow> error + bool" where
  "found_in_cell ins ellipsoids elpsNum quadrant ev =
     (if elpsNum = 0
      then isOutside ins (ellipsoids ! elpsNum)
             (ev_latitude ev) (ev_longitude ev) (ev_depth ev) quadrant
      else (case isOutside ins (ellipsoids ! elpsNum)
                   (ev_latitude ev) (ev_longitude ev) (ev_depth ev) quadrant of
              Inl err \<Rightarrow> Inl err
            | Inr False \<Rightarrow> Inr False
            | Inr True \<Rightarrow> isInside ins (ellipsoids ! (elpsNum - 1))
                            (ev_latitude ev) (ev_longitude ev) (ev_depth ev) quadrant))"

text \<open>
  The state of the sweep. \<open>selectedEvents\<close> is the multimap from distance to event id;
  \<open>neighboringEventCat\<close> lists the events handed to \<open>copyEvent\<close>, in order.
\<close>

record sweep_state =
  selectedEvents :: "(real \<times> nat) list"
  neighboringEventCat :: "Event list"
  numNeighbors :: int
  workToDo :: bool

text \<open>
  The innermost loop over \<open>selectedEvents\<close>: the first event found in the cell is removed from
  the list and returned. \<open>getEvents().at(id)\<close> throws for an unknown id.
\<close>

fun pick_event ::
  "(nat \<times> Event) list \<Rightarrow> (Event \<Rightarrow> error + bool) \<Rightarrow> (real \<times> nat) list
     \<Rightarrow> error + (Event \<times> (real \<times> nat) list) option" where
  "pick_event srcEvents found [] = Inr None"
| "pick_event srcEvents found ((d, i) # rest) =
     (case map_of srcEvents i of
        None \<Rightarrow> Inl RuntimeError
      | Some ev \<Rightarrow>
          (case found ev of
             Inl err \<Rightarrow> Inl err
           | Inr True \<Rightarrow> Inr (Some (ev, rest))
           | Inr False \<Rightarrow>
               (case pick_event srcEvents found rest of
                  Inl err \<Rightarrow> Inl err
                | Inr None \<Rightarrow> Inr None
                | Inr (Some (ev', rest')) \<Rightarrow> Inr (Some (ev', (d, i) # rest')))))"

text \<open>The loop over the quadrants, with its quota check and \<open>break\<close>.\<close>

fun quadrant_loop ::
  "(nat \<times> Event) list \<Rightarrow> (nat \<Rightarrow> int \<Rightarrow> Event \<Rightarrow> error + bool) \<Rightarrow> int \<Rightarrow> nat
     \<Rightarrow> int list \<Rightarrow> sweep_state \<Rightarrow> error + sweep_state" where
  "quadrant_loop srcEvents found maxNumNeigh elpsNum [] s = Inr s"
| "quadrant_loop srcEvents found maxNumNeigh elpsNum (quadrant # quadrants) s =
     (if selectedEvents s = [] \<or> (maxNumNeigh > 0 \<and> numNeighbors s \<ge> maxNumNeigh)
      then Inr (s\<lparr>workToDo := False\<rparr>)
      else (case pick_event srcEvents (found elpsNum quadrant) (selectedEvents s) of
              Inl err \<Rightarrow> Inl err
            | Inr None \<Rightarrow> quadrant_loop srcEvents found maxNumNeigh elpsNum quadrants s
            | Inr (Some (ev, rest)) \<Rightarrow>
                quadrant_loop srcEvents found maxNumNeigh elpsNum quadrants
                  (s\<lparr>neighboringEventCat := neighboringEventCat s @ [ev],
                     numNeighbors := numNeighbors s + 1,
                     selectedEvents := rest\<rparr>)))"

definition quadrants :: "int list" where
  "quadrants = [1, 2, 3, 4, 5, 6, 7, 8]"

text \<open>The loop over the ellipsoid indexes, from the last one down to 0.\<close>

fun ellipsoid_loop ::
  "(nat \<times> Event) list \<Rightarrow> (nat \<Rightarrow> int \<Rightarrow> Event \<Rightarrow> error + bool) \<Rightarrow> int
     \<Rightarrow> nat list \<Rightarrow> sweep_state \<Rightarrow> error + sweep_state" where
  "ellipsoid_loop srcEvents found maxNumNeigh [] s = Inr s"
| "ellipsoid_loop srcEvents found maxNumNeigh (elpsNum # elpsNums) s =
     (case quadrant_loop srcEvents found maxNumNeigh elpsNum quadrants s of
        Inl err \<Rightarrow> Inl err
      | Inr s' \<Rightarrow> ellipsoid_loop srcEvents found maxNumNeigh elpsNums s')"

text \<open>
  \<open>while (workToDo)\<close>. The loop has no bound of its own, so the model counts iterations:
  \<open>None\<close> means that the fuel ran out before the loop ended.
\<close>

fun sweep_while ::
  "nat \<Rightarrow> (nat \<times> Event) list \<Rightarrow> (nat \<Rightarrow> int \<Rightarrow> Event \<Rightarrow> error + bool) \<Rightarrow> int
     \<Rightarrow> nat \<Rightarrow> sweep_state \<Rightarrow> (error + sweep_state) option" where
  "sweep_while 0 srcEvents found maxNumNeigh numElps s = None"
| "sweep_while (Suc fuel) srcEvents found maxNumNeigh numElps s =
     (if workToDo s
      then (case ellipsoid_loop srcEvents found maxNumNeigh (rev [0..<numElps]) s of
              Inl err \<Rightarrow> Some (Inl err)
            | Inr s' \<Rightarrow> sweep_while fuel srcEvents found maxNumNeigh numElps s')
      else Some (Inr s))"

text \<open>
  The second half of \<open>selectNeighbouringEvents\<close>, from the construction of the ellipsoids to
  the \<open>return\<close>; \<open>selectedEvents\<close> is what the first half has built. The result is the list
  of the events copied into the neighbour catalog, or the exception thrown.
\<close>

definition selectNeighbouringEvents_sweep ::
  "nat \<Rightarrow> (real \<Rightarrow> real \<Rightarrow> real \<Rightarrow> real \<Rightarrow> real \<times> real) \<Rightarrow> (real \<Rightarrow> real)
     \<Rightarrow> (nat \<times> Event) list \<Rightarrow> Event \<Rightarrow> (real \<times> nat) list
     \<Rightarrow> int \<Rightarrow> int \<Rightarrow> int \<Rightarrow> int \<Rightarrow> (error + Event list) option" where
  "selectNeighbouringEvents_sweep fuel delazi deg2km srcEvents refEv selected
       minNumNeigh maxNumNeigh numEllipsoids maxEllipsoidSize =
     (let ellipsoids = make_ellipsoids numEllipsoids maxEllipsoidSize refEv;
          found = found_in_cell (Ellipsoid_isInside delazi deg2km) ellipsoids;
          s0 = \<lparr>selectedEvents = selected, neighboringEventCat = [],
                numNeighbors = 0, workToDo = True\<rparr>
      in case sweep_while fuel srcEvents found maxNumNeigh (length ellipsoids) s0 of
           None \<Rightarrow> None
         | Some (Inl err) \<Rightarrow> Some (Inl err)
         | Some (Inr s) \<Rightarrow>
             (if numNeighbors s < minNumNeigh then Some (Inl RuntimeError)
              else Some (Inr (neighboringEventCat s))))"

text \<open>The invariant of the sweep: the quota is respected and the counter counts the copies.\<close>

definition sweep_inv :: "int \<Rightarrow> sweep_state \<Rightarrow> bool" where
  "sweep_inv maxNumNeigh s =
     (numNeighbors s \<le> maxNumNeigh \<and> int (length (neighboringEventCat s)) = numNeighbors s)"

section \<open>Neighbour selection for a whole catalog (selectNeighbouringEventsCatalog)\<close>

text \<open>
  A neighbour catalog is represented by the ids of its events, in ascending order. Modelled
  from the spec: class \<open>Catalog\<close> is not among the sources; event ids are unique within a
  catalog, \<open>copyEvent\<close> with \<open>keepEvId = true\<close> adds the event under its own id and
  \<open>removeEvent\<close> takes the event with the given id out of the catalog.
\<close>

definition copyEvent :: "nat \<Rightarrow> nat list \<Rightarrow> nat list" where
  "copyEvent i cat = (if i \<in> set cat then cat else insort i cat)"

definition removeEvent :: "nat \<Rightarrow> nat list \<Rightarrow> nat list" where
  "removeEvent i cat = filter (\<lambda>j. j \<noteq> i) cat"

text \<open>
  The first loop: \<open>select\<close> stands for the call of \<open>selectNeighbouringEvents\<close> on one event
  (the ids of the selected neighbours, or the exception that the \<open>catch\<close> swallows). The
  events are visited in ascending id order, so each new entry of \<open>neighboursByEvent\<close> goes
  to the end.
\<close>

fun collect_neighbours :: "(nat \<Rightarrow> error + nat list) \<Rightarrow> nat list \<Rightarrow> (nat \<times> nat list) list" where
  "collect_neighbours select [] = []"
| "collect_neighbours select (i # rest) =
     (case select i of
        Inl err \<Rightarrow> collect_neighbours select rest
      | Inr neighbourCat \<Rightarrow> (i, copyEvent i neighbourCat) # collect_neighbours select rest)"

text \<open>
  The second loop, over \<open>neighboursByEvent\<close> in key order: the events paired with the current
  one in an earlier catalog are removed, then every remaining neighbour \<open>k\<close> is recorded in
  the multimap \<open>existingPairs\<close> under the key \<open>k\<close>.
\<close>

fun remove_existing_pairs ::
  "(nat \<times> nat list) list \<Rightarrow> (nat \<times> nat) list \<Rightarrow> (nat \<times> nat list) list" where
  "remove_existing_pairs [] existingPairs = []"
| "remove_existing_pairs ((currEventId, currCat) # rest) existingPairs =
     (let currCat' = fold removeEvent (equal_range currEventId existingPairs) currCat;
          existingPairs' =
            fold (\<lambda>k ep. if k \<noteq> currEventId then mm_emplace k currEventId ep else ep)
              currCat' existingPairs
      in (currEventId, currCat') # remove_existing_pairs rest existingPairs')"

definition selectNeighbouringEventsCatalog ::
  "(nat \<Rightarrow> error + nat list) \<Rightarrow> nat list \<Rightarrow> (nat \<times> nat list) list" where
  "selectNeighbouringEventsCatalog select eventIds =
     remove_existing_pairs (collect_neighbours select eventIds) []"

section \<open>Cross-correlation of two traces (xcorr, trace version)\<close>

record GenericRecord =
  startTime :: real
  samplingFrequency :: real
  data :: "real list"

text \<open>
  The inner loop over \<open>idxS\<close>: the three sums, a term being skipped when \<open>idxL\<close> is outside
  the longer trace. The state is \<open>(numer, denomL, denomS)\<close>.
\<close>

fun xcorr_sums ::
  "real list \<Rightarrow> real list \<Rightarrow> int \<Rightarrow> nat list \<Rightarrow> real \<times> real \<times> real \<Rightarrow> real \<times> real \<times> real" where
  "xcorr_sums smpsS smpsL delay [] acc = acc"
| "xcorr_sums smpsS smpsL delay (idxS # rest) (numer, denomL, denomS) =
     (let idxL = int idxS + (int (length smpsL) - int (length smpsS)) div 2 + delay
      in if idxL < 0 \<or> idxL \<ge> int (length smpsL)
         then xcorr_sums smpsS smpsL delay rest (numer, denomL, denomS)
         else xcorr_sums smpsS smpsL delay rest
                (numer + smpsS ! idxS * smpsL ! nat idxL,
                 denomL + smpsL ! nat idxL * smpsL ! nat idxL,
                 denomS + smpsS ! idxS * smpsS ! idxS))"

text \<open>The coefficient \<open>numer / std::sqrt(denomS * denomL)\<close> of one delay.\<close>

definition xcorr_coeff :: "real list \<Rightarrow> real list \<Rightarrow> int \<Rightarrow> dbl" where
  "xcorr_coeff smpsS smpsL delay =
     (let (numer, denomL, denomS) = xcorr_sums smpsS smpsL delay [0..<length smpsS] (0, 0, 0);
          denom = sqrt (denomS * denomL)
      in dbl_div numer denom)"

text \<open>The variables that the loop over the delays updates.\<close>

record xcorr_state =
  coeffOut :: dbl
  delayOut :: real
  localMaxs :: "dbl list"
  notDecreasing :: bool
  prevCoeff :: dbl

text \<open>The body of the loop over the delays, once the coefficient of the delay is known.\<close>

definition xcorr_step :: "real \<Rightarrow> xcorr_state \<Rightarrow> int \<Rightarrow> dbl \<Rightarrow> xcorr_state" where
  "xcorr_step freq st delay coeff =
     (let st1 = (if dbl_less (coeffOut st) coeff \<or> \<not> isfinite (coeffOut st)
                 then st\<lparr>coeffOut := coeff, delayOut := of_int delay / freq\<rparr>
                 else st);
          st2 = (if dbl_less coeff (prevCoeff st) \<and> notDecreasing st
                 then st1\<lparr>localMaxs := localMaxs st @ [prevCoeff st]\<rparr>
                 else st1)
      in st2\<lparr>notDecreasing := dbl_ge coeff (prevCoeff st), prevCoeff := coeff\<rparr>)"

fun xcorr_loop :: "real \<Rightarrow> real list \<Rightarrow> real list \<Rightarrow> int list \<Rightarrow> xcorr_state \<Rightarrow> xcorr_state" where
  "xcorr_loop freq smpsS smpsL [] st = st"
| "xcorr_loop freq smpsS smpsL (delay # rest) st =
     xcorr_loop freq smpsS smpsL rest (xcorr_step freq st delay (xcorr_coeff smpsS smpsL delay))"

text \<open>
  The delays of \<open>for (int delay = -maxDelaySmps; delay < maxDelaySmps; delay++)\<close>, and the
  state before the first one.
\<close>

definition xcorr_delays :: "int \<Rightarrow> int list" where
  "xcorr_delays maxDelaySmps = [- maxDelaySmps..maxDelaySmps - 1]"

definition xcorr_init :: xcorr_state where
  "xcorr_init = \<lparr>coeffOut = NaN, delayOut = 0, localMaxs = [], notDecreasing = False,
                 prevCoeff = Fin (- 1)\<rparr>"

text \<open>
  The loop of the quality check: \<open>True\<close> when \<open>numMax\<close> exceeds 1, where the source sets
  the coefficient to NaN and leaves the loop.
\<close>

fun cycle_skipping :: "real \<Rightarrow> dbl list \<Rightarrow> int \<Rightarrow> bool" where
  "cycle_skipping threshold [] numMax = False"
| "cycle_skipping threshold (CCslm # rest) numMax =
     (let numMax' = (if isfinite CCslm \<and> dbl_ge CCslm (Fin threshold) then numMax + 1 else numMax)
      in if numMax' > 1 then True else cycle_skipping threshold rest numMax')"

fun quality_check :: "bool \<Rightarrow> dbl \<Rightarrow> dbl list \<Rightarrow> dbl" where
  "quality_check qualityCheck (Fin c) maxs =
     (if qualityCheck
      then (let threshold = c - ((1 - c) / 2)
            in if cycle_skipping threshold maxs 0 then NaN else Fin c)
      else Fin c)"
| "quality_check qualityCheck c maxs = c"

text \<open>
  The state after the loop over the delays, for the two traces as passed to \<open>xcorr\<close>.
  \<open>maxDelaySmps\<close> is the product \<open>maxDelay * freq\<close> truncated toward zero. The product is
  taken in the reals here; the source truncates the product rounded to a double, which is
  one sample more where rounding lifts the product to the next integer (\<open>0.15 * 100\<close> is
  15 in doubles, while the product of the two doubles taken exactly is below 15). The
  two agree where the product is an integer that a double holds exactly, as in all the
  examples below.
\<close>

definition xcorr_scan :: "GenericRecord \<Rightarrow> GenericRecord \<Rightarrow> real \<Rightarrow> xcorr_state" where
  "xcorr_scan tr1 tr2 maxDelay =
     (let freq = samplingFrequency tr1;
          maxDelaySmps = trunc_int (maxDelay * freq);
          swap = length (data tr1) > length (data tr2);
          smpsS = data (if swap then tr2 else tr1);
          smpsL = data (if swap then tr1 else tr2)
      in xcorr_loop freq smpsS smpsL (xcorr_delays maxDelaySmps) xcorr_init)"

text \<open>
  \<open>xcorr\<close> on two traces: \<open>None\<close> when it returns false (different sampling frequencies),
  otherwise \<open>(delayOut, coeffOut)\<close>.
\<close>

definition xcorr :: "GenericRecord \<Rightarrow> GenericRecord \<Rightarrow> real \<Rightarrow> bool \<Rightarrow> (real \<times> dbl) option" where
  "xcorr tr1 tr2 maxDelay qualityCheck =
     (if samplingFrequency tr1 \<noteq> samplingFrequency tr2 then None
      else (let st = xcorr_scan tr1 tr2 maxDelay;
                swap = length (data tr1) > length (data tr2);
                delay = (if swap then - delayOut st else delayOut st)
            in Some (delay, quality_check qualityCheck (coeffOut st) (localMaxs st))))"

section \<open>Cross-correlation of two phases (xcorr, event and phase version)\<close>





section \<open>Notions used to state the properties of the correlation series\<close>

text \<open>
  The correlation series of two traces: the coefficients in the order in which the loop
  over the delays computes them.
\<close>

definition xcorr_series :: "GenericRecord \<Rightarrow> GenericRecord \<Rightarrow> real \<Rightarrow> dbl list" where
  "xcorr_series tr1 tr2 maxDelay =
     (let swap = length (data tr1) > length (data tr2);
          smpsS = data (if swap then tr2 else tr1);
          smpsL = data (if swap then tr1 else tr2)
      in map (xcorr_coeff smpsS smpsL)
           (xcorr_delays (trunc_int (maxDelay * samplingFrequency tr1))))"

text \<open>
  The local maxima of a series, in the words of the specification: the values of the series
  that exceed each of their neighbours; a value at either end of the series has one
  neighbour only.
\<close>

definition series_local_maxima :: "dbl list \<Rightarrow> dbl list" where
  "series_local_maxima cs =
     map (\<lambda>i. cs ! i)
       (filter (\<lambda>i. (i = 0 \<or> dbl_less (cs ! (i - 1)) (cs ! i))
                    \<and> (Suc i = length cs \<or> dbl_less (cs ! Suc i) (cs ! i)))
          [0..<length cs])"

text \<open>A double that is finite or NaN.\<close>

definition no_inf :: "dbl \<Rightarrow> bool" where
  "no_inf c = (c \<noteq> PInf \<and> c \<noteq> MInf)"

section \<open>Notions and example data for the swap of the two phases\<close>




definition ex_event :: "nat \<Rightarrow> Event" where
  "ex_event i = \<lparr>ev_id = i, ev_time = 0, ev_latitude = 46, ev_longitude = 7, ev_depth = 5\<rparr>"

definition ex_phase :: "nat \<Rightarrow> bool \<Rightarrow> Phase" where
  "ex_phase i manual =
     \<lparr>eventId = i, stationId = ''CH.SIMPL.'', time = 5, weight = 1, type = ''P'',
      networkCode = ''CH'', stationCode = ''SIMPL'', locationCode = [], channelCode = ''HHZ'',
      isManual = manual\<rparr>"







section \<open>The waveform cache (getWaveform)\<close>

record TimeWindow =
  tw_start :: real
  tw_end :: real

record snr_cfg =
  minSnr :: real
  noiseStart :: real
  noiseEnd :: real
  signalStart :: real
  signalEnd :: real

text \<open>
  \<open>waveformId\<close>: the fingerprint \<open>net.sta.loc.chan.start.end\<close>; \<open>isoTime\<close> is the ISO rendering
  of a time (\<open>Core::Time::iso\<close>).
\<close>

definition waveformId :: "(real \<Rightarrow> string) \<Rightarrow> Phase \<Rightarrow> TimeWindow \<Rightarrow> string" where
  "waveformId isoTime ph tw =
     networkCode ph @ ''.'' @ stationCode ph @ ''.'' @ locationCode ph @ ''.'' @ channelCode ph
       @ ''.'' @ isoTime (tw_start tw) @ ''.'' @ isoTime (tw_end tw)"

definition traceTimeWindowToLoad :: "snr_cfg \<Rightarrow> Phase \<Rightarrow> TimeWindow \<Rightarrow> TimeWindow" where
  "traceTimeWindowToLoad cfg ph neededTW =
     (if minSnr cfg > 0
      then \<lparr>tw_start = min (tw_start neededTW)
                          (min (time ph + noiseStart cfg) (time ph + signalStart cfg)),
            tw_end = max (tw_end neededTW)
                        (max (time ph + noiseEnd cfg) (time ph + signalEnd cfg))\<rparr>
      else neededTW)"

text \<open>
  What one call of \<open>getWaveform\<close> obtains from its collaborators: whether the inventory
  knows the sensor location, whether the three components are resolved, whether the
  requested channel is one of them, the outcome of \<open>loadWaveform\<close> and of
  \<open>loadProjectWaveform\<close> on the window to load (\<open>Inl\<close>: an exception), the outcome of
  \<open>filter\<close> (\<open>Inl\<close>: the exception of a filter that cannot be created) and the outcome of
  \<open>trim\<close> (\<open>None\<close>: false).
\<close>

record load_env =
  env_iso :: "real \<Rightarrow> string"
  env_sensorLocation :: bool
  env_allComponents :: bool
  env_channelIsComponent :: bool
  env_loadWaveform :: "TimeWindow \<Rightarrow> error + GenericRecord"
  env_loadProjectWaveform :: "TimeWindow \<Rightarrow> error + GenericRecord"
  env_filter :: "GenericRecord \<Rightarrow> error + GenericRecord"
  env_trim :: "GenericRecord \<Rightarrow> TimeWindow \<Rightarrow> GenericRecord option"

text \<open>The members of \<open>HypoDD\<close> that \<open>getWaveform\<close> updates.\<close>

record HypoDD_state =
  excludedWfs :: "string set"
  wf_no_avail :: nat
  snr_low :: nat

text \<open>
  A \<open>GenericRecordPtr\<close> is a pointer to a trace object, or null (\<open>None\<close>). The trace objects
  that are alive are kept in a store, the address of an object being its position there; a
  new object is put at the end. A memory cache maps a fingerprint to a pointer; an entry may
  hold the null pointer (\<open>Some None\<close>).
\<close>

type_synonym GenericRecordPtr = "nat option"

type_synonym trace_store = "GenericRecord list"

type_synonym wfCache = "string \<Rightarrow> GenericRecordPtr option"

text \<open>
  \<open>S2Nratio\<close> as the member function is called: on a trace object and the pick time, from
  which it takes the samples, the sampling frequency and the offset of the pick from the
  start of the trace; it returns \<open>-1\<close> in its error branch.
\<close>

definition S2Nratio_trace :: "GenericRecord \<Rightarrow> real \<Rightarrow> real \<Rightarrow> real \<Rightarrow> real \<Rightarrow> real \<Rightarrow> dbl" where
  "S2Nratio_trace tr pickTime noiseOffsetStart noiseOffsetEnd signalOffsetStart signalOffsetEnd =
     (case S2Nratio (data tr) (Fin (samplingFrequency tr)) (Fin (pickTime - startTime tr))
             (Fin noiseOffsetStart) (Fin noiseOffsetEnd)
             (Fin signalOffsetStart) (Fin signalOffsetEnd) of
        Inl err \<Rightarrow> Fin (- 1)
      | Inr ratio \<Rightarrow> ratio)"

text \<open>
  \<open>getWaveform\<close>. The memory cache is an argument of the function, passed by reference: it
  is returned with the result, as are the members of \<open>HypoDD\<close> and the store of trace
  objects. The loaded object is filtered and trimmed in place before it is cached, so the
  object that enters the store is the filtered and trimmed one; an object that is not
  cached is released when the function returns and never enters the store. The exceptions
  of the two load functions are caught; \<open>filter\<close> is called outside the \<open>try\<close> block, so its
  exception leaves the function (\<open>Inl\<close>), with the cache and the exclusion set as they
  were. \<open>S2Nratio\<close> is evaluated only when the SNR is checked.
  Writing the debug dumps is left out.
\<close>

definition getWaveform ::
  "load_env \<Rightarrow> snr_cfg \<Rightarrow> TimeWindow \<Rightarrow> Event \<Rightarrow> Phase \<Rightarrow> wfCache \<Rightarrow> bool \<Rightarrow> bool
     \<Rightarrow> HypoDD_state \<Rightarrow> trace_store
     \<Rightarrow> (error + GenericRecordPtr) \<times> wfCache \<times> HypoDD_state \<times> trace_store" where
  "getWaveform env cfg tw ev ph memCache useDiskCache checkSnr st store =
     (let wfId = waveformId (env_iso env) ph tw
      in case memCache wfId of
           Some cached \<Rightarrow> (Inr cached, memCache, st, store)
         | None \<Rightarrow>
        (if wfId \<in> excludedWfs st then (Inr None, memCache, st, store)
         else
          (let projectionRequired =
                 (if \<not> env_sensorLocation env then False else \<not> env_channelIsComponent env);
               allComponents = (env_sensorLocation env \<and> env_allComponents env);
               twToLoad = (if checkSnr then traceTimeWindowToLoad cfg ph tw else tw)
           in if projectionRequired \<and> \<not> allComponents
              then (Inr None, memCache,
                    st\<lparr>excludedWfs := insert wfId (excludedWfs st),
                       wf_no_avail := wf_no_avail st + 1\<rparr>, store)
              else
               (case (if \<not> projectionRequired then env_loadWaveform env twToLoad
                      else env_loadProjectWaveform env twToLoad) of
                  Inl err \<Rightarrow>
                    (Inr None, memCache,
                     st\<lparr>excludedWfs := insert wfId (excludedWfs st),
                        wf_no_avail := wf_no_avail st + 1\<rparr>, store)
                | Inr loaded \<Rightarrow>
                   (case env_filter env loaded of
                      Inl err \<Rightarrow> (Inl err, memCache, st, store)
                    | Inr trace \<Rightarrow>
                       if checkSnr \<and> minSnr cfg > 0
                          \<and> dbl_less
                               (S2Nratio_trace trace (time ph) (noiseStart cfg) (noiseEnd cfg)
                                  (signalStart cfg) (signalEnd cfg))
                               (Fin (minSnr cfg))
                       then (Inr None, memCache,
                             st\<lparr>excludedWfs := insert wfId (excludedWfs st),
                                snr_low := snr_low st + 1\<rparr>, store)
                       else if twToLoad \<noteq> tw
                       then (case env_trim env trace tw of
                               None \<Rightarrow>
                                 (Inr None, memCache,
                                  st\<lparr>excludedWfs := insert wfId (excludedWfs st)\<rparr>, store)
                             | Some trimmed \<Rightarrow>
                                 (Inr (Some (length store)),
                                  memCache(wfId \<mapsto> Some (length store)), st,
                                  store @ [trimmed]))
                       else (Inr (Some (length store)),
                             memCache(wfId \<mapsto> Some (length store)), st,
                             store @ [trace]))))))"

text \<open>
  What can happen to a memory cache, the members of \<open>HypoDD\<close> and the store of trace objects
  over time: \<open>later others p q\<close> holds when \<open>q\<close> is reached from \<open>p\<close> by any number of steps,
  each of them a call of \<open>getWaveform\<close> on this cache, with any arguments and any answers of
  the collaborators, or, when \<open>others\<close> is true, a step of the rest of the program that
  leaves this cache alone: a call of \<open>getWaveform\<close> on another cache, which may add to the
  exclusion set, change the counters and create trace objects, or a change of a trace
  object in place, as when the caller trims the trace it was given. Nothing else changes a
  cache or the exclusion set while the \<open>HypoDD\<close> object lives: \<open>cleanUnusedResources\<close>, which
  rebuilds the catalog cache, is called by the destructor.
\<close>

inductive later ::
  "bool \<Rightarrow> wfCache \<times> HypoDD_state \<times> trace_store \<Rightarrow> wfCache \<times> HypoDD_state \<times> trace_store \<Rightarrow> bool"
  for others :: bool and p :: "wfCache \<times> HypoDD_state \<times> trace_store" where
  later_refl: "later others p p"
| later_call:
    "later others p (memCache, st, store) \<Longrightarrow>
     getWaveform env cfg tw ev ph memCache useDiskCache checkSnr st store
       = (r, memCache', st', store') \<Longrightarrow>
     later others p (memCache', st', store')"
| later_other:
    "later others p (memCache, st, store) \<Longrightarrow> others \<Longrightarrow>
     excludedWfs st \<subseteq> excludedWfs st' \<Longrightarrow>
     later others p (memCache, st', store')"

section \<open>Example data for the waveform cache\<close>

text \<open>
  Example data: no sensor location in the inventory, a record stream that delivers eight
  samples of amplitude 1 at 1 Hz, no filtering, and a minimum signal to noise ratio of 2.
\<close>

definition ex_env :: load_env where
  "ex_env =
     \<lparr>env_iso = (\<lambda>t. if t = 5 then ''5'' else if t = 6 then ''6'' else ''0''),
      env_sensorLocation = False, env_allComponents = False, env_channelIsComponent = False,
      env_loadWaveform =
        (\<lambda>tw. Inr \<lparr>startTime = 0, samplingFrequency = 1, data = [1, 1, 1, 1, 1, 1, 1, 1]\<rparr>),
      env_loadProjectWaveform = (\<lambda>tw. Inl RuntimeError),
      env_filter = (\<lambda>tr. Inr tr),
      env_trim = (\<lambda>tr tw. Some tr)\<rparr>"

definition ex_snr :: snr_cfg where
  "ex_snr = \<lparr>minSnr = 2, noiseStart = - 2, noiseEnd = - 1, signalStart = 0, signalEnd = 1\<rparr>"

definition ex_tw :: TimeWindow where
  "ex_tw = \<lparr>tw_start = 5, tw_end = 6\<rparr>"

text \<open>A second window, with the fingerprint \<open>CH.SIMPL..HHZ.0.6\<close>.\<close>

definition ex_tw_other :: TimeWindow where
  "ex_tw_other = \<lparr>tw_start = 0, tw_end = 6\<rparr>"

definition ex_trace :: GenericRecord where
  "ex_trace = \<lparr>startTime = 0, samplingFrequency = 1, data = [1, 1, 1, 1, 1, 1, 1, 1]\<rparr>"

text \<open>The trace object after a caller has trimmed it in place to the window from 5 to 6.\<close>

definition ex_trace_trimmed :: GenericRecord where
  "ex_trace_trimmed = \<lparr>startTime = 5, samplingFrequency = 1, data = [1]\<rparr>"

definition ex_state :: HypoDD_state where
  "ex_state = \<lparr>excludedWfs = {}, wf_no_avail = 0, snr_low = 0\<rparr>"

text \<open>The members of \<open>HypoDD\<close> once the fingerprint \<open>CH.SIMPL..HHZ.5.6\<close> is excluded for low SNR.\<close>

definition ex_state_excl :: HypoDD_state where
  "ex_state_excl = \<lparr>excludedWfs = {''CH.SIMPL..HHZ.5.6''}, wf_no_avail = 0, snr_low = 1\<rparr>"

section \<open>Theorems\<close>

subsection \<open>nextPowerOf2\<close>

lemma nextPowerOf2_loop_fits:
  assumes "a \<le> 2 ^ 20" "k \<le> 20" "k = 7 \<or> 2 ^ (k - 1) < a"
  shows "\<exists>j. j \<le> 20 \<and> 7 \<le> j + (7 - k) \<and> nextPowerOf2_loop (2 ^ k) a (2 ^ 20) = Some (2 ^ j)
             \<and> a \<le> 2 ^ j \<and> (j = 7 \<or> 2 ^ (j - 1) < a)"
  using assms
proof (induction "20 - k" arbitrary: k)
  case 0
  then have k: "k = 20" by simp
  have "nextPowerOf2_loop (2 ^ 20) a (2 ^ 20) = Some (2 ^ 20)"
    using 0(2) by (subst nextPowerOf2_loop.simps) simp
  then show ?case using 0 k by (intro exI[of _ 20]) simp
next
  case (Suc n)
  then have k: "k < 20" by simp
  show ?case
  proof (cases "(2::int) ^ k < a")
    case False
    then have "nextPowerOf2_loop (2 ^ k) a (2 ^ 20) = Some (2 ^ k)"
      by (subst nextPowerOf2_loop.simps) simp
    then show ?thesis using False Suc.prems by (intro exI[of _ k]) auto
  next
    case True
    have le: "(2::int) * 2 ^ k \<le> 2 ^ 20"
    proof -
      have "(2::int) ^ Suc k \<le> 2 ^ 20" using k by (intro power_increasing) simp_all
      then show ?thesis by simp
    qed
    have step: "nextPowerOf2_loop (2 ^ k) a (2 ^ 20) = nextPowerOf2_loop (2 ^ Suc k) a (2 ^ 20)"
      using True le by (subst nextPowerOf2_loop.simps) simp
    have "n = 20 - Suc k" using Suc.hyps(2) by simp
    moreover have "Suc k \<le> 20" using k by simp
    moreover have "Suc k = 7 \<or> (2::int) ^ (Suc k - 1) < a" using True by simp
    ultimately obtain j where j: "j \<le> 20" "7 \<le> j + (7 - Suc k)"
        "nextPowerOf2_loop (2 ^ Suc k) a (2 ^ 20) = Some (2 ^ j)"
        "a \<le> 2 ^ j" "j = 7 \<or> 2 ^ (j - 1) < a"
      using Suc.hyps(1)[of "Suc k"] Suc.prems(1) by blast
    show ?thesis using j step by (intro exI[of _ j]) auto
  qed
qed

lemma nextPowerOf2_loop_overflow:
  assumes "2 ^ 20 < a" "k \<le> 20"
  shows "nextPowerOf2_loop (2 ^ k) a (2 ^ 20) = Some (- 1)"
  using assms
proof (induction "20 - k" arbitrary: k)
  case 0
  then have k: "k = 20" by simp
  show ?case using 0(2) unfolding k by (subst nextPowerOf2_loop.simps) simp
next
  case (Suc n)
  then have k: "k < 20" by simp
  have "(2::int) ^ k \<le> 2 ^ 20" using k by (intro power_increasing) simp_all
  then have lt: "(2::int) ^ k < a" using Suc.prems by simp
  have le: "(2::int) * 2 ^ k \<le> 2 ^ 20"
  proof -
    have "(2::int) ^ Suc k \<le> 2 ^ 20" using k by (intro power_increasing) simp_all
    then show ?thesis by simp
  qed
  have step: "nextPowerOf2_loop (2 ^ k) a (2 ^ 20) = nextPowerOf2_loop (2 ^ Suc k) a (2 ^ 20)"
    using lt le by (subst nextPowerOf2_loop.simps) simp
  have "n = 20 - Suc k" using Suc.hyps(2) by simp
  then show ?case using Suc.hyps(1)[of "Suc k"] Suc.prems(1) k step by simp
qed

subsection \<open>C8: record length written to the disk cache\<close>

text \<open>
  C8 (as amended). With \<open>r = payload + 64\<close>: when \<open>r \<le> 1048576\<close> the trace is written with
  a record length that is a power of two between 128 and 1048576, at least \<open>r\<close>, and the
  least such power (it is 128, or its half is below \<open>r\<close>). When \<open>r > 1048576\<close> the length
  is not clamped: \<open>nextPowerOf2\<close> returns \<open>-1\<close> and nothing is written.
\<close>

theorem writeTrace_record_length:
  "(sz * bytes + 64 \<le> 1048576 \<longrightarrow>
      (\<exists>j. writeTrace sz bytes = Some (Written (2 ^ j)) \<and> 7 \<le> j \<and> j \<le> 20
           \<and> sz * bytes + 64 \<le> 2 ^ j \<and> (j = 7 \<or> 2 ^ (j - 1) < sz * bytes + 64)))
   \<and> (1048576 < sz * bytes + 64 \<longrightarrow>
        nextPowerOf2 (sz * bytes + 64) 128 1048576 = Some (- 1)
        \<and> writeTrace sz bytes = Some NotWritten)"
proof (intro conjI impI)
  assume small: "sz * bytes + 64 \<le> 1048576"
  have "\<exists>j. j \<le> 20 \<and> 7 \<le> j + (7 - 7)
          \<and> nextPowerOf2_loop (2 ^ 7) (sz * bytes + 64) (2 ^ 20) = Some (2 ^ j)
          \<and> sz * bytes + 64 \<le> 2 ^ j \<and> (j = 7 \<or> 2 ^ (j - 1) < sz * bytes + 64)"
    using small by (intro nextPowerOf2_loop_fits) simp_all
  then obtain j where j: "j \<le> 20" "7 \<le> j"
      "nextPowerOf2_loop 128 (sz * bytes + 64) 1048576 = Some (2 ^ j)"
      "sz * bytes + 64 \<le> 2 ^ j" "j = 7 \<or> 2 ^ (j - 1) < sz * bytes + 64"
    by auto
  have "writeTrace sz bytes = Some (Written (2 ^ j))"
    using j(3) by (simp add: writeTrace_def nextPowerOf2_def)
  then show "\<exists>j. writeTrace sz bytes = Some (Written (2 ^ j)) \<and> 7 \<le> j \<and> j \<le> 20
           \<and> sz * bytes + 64 \<le> 2 ^ j \<and> (j = 7 \<or> 2 ^ (j - 1) < sz * bytes + 64)"
    using j by blast
next
  assume big: "1048576 < sz * bytes + 64"
  have "nextPowerOf2_loop (2 ^ 7) (sz * bytes + 64) (2 ^ 20) = Some (- 1)"
    using big by (intro nextPowerOf2_loop_overflow) simp_all
  then show "nextPowerOf2 (sz * bytes + 64) 128 1048576 = Some (- 1)"
    by (simp add: nextPowerOf2_def)
  then show "writeTrace sz bytes = Some NotWritten"
    by (simp add: writeTrace_def)
qed

theorem writeTrace_record_length_witness:
  "(\<exists>j. writeTrace 100 8 = Some (Written (2 ^ j)) \<and> 7 \<le> j \<and> j \<le> 20
        \<and> (864::int) \<le> 2 ^ j \<and> (j = 7 \<or> (2::int) ^ (j - 1) < 864))
   \<and> writeTrace 200000 8 = Some NotWritten"
  using writeTrace_record_length [of 100 8] writeTrace_record_length [of 200000 8]
  by simp

text \<open>
  The claim as stated fails: a payload of 131072 samples of 8 bytes asks for 1048640 bytes,
  more than 1048576, and the trace is not written at all.
\<close>

theorem writeTrace_clamp_counterexample:
  "writeTrace 131072 8 = Some NotWritten \<and> writeTrace 131072 8 \<noteq> Some (Written 1048576)"
proof -
  have "nextPowerOf2_loop (2 ^ 7) 1048640 (2 ^ 20) = Some (- 1)"
    by (intro nextPowerOf2_loop_overflow) simp_all
  then show ?thesis
    by (simp add: writeTrace_def nextPowerOf2_def)
qed

subsection \<open>C9: octant membership\<close>

text \<open>
  C9 (as amended). For a quadrant number in 1..8 membership is decided by the signs of the
  three coordinate differences alone. Octants 1-4 hold the points whose depth value is at
  least the origin's, octants 5-8 those whose depth value is at most the origin's: a point
  strictly shallower than the origin belongs only to octants 5-8, a point strictly deeper
  only to octants 1-4. In each stratum the labels run NE, NW, SW, SE (1/5: latitude and
  longitude not below the origin's; 2/6: latitude not below, longitude not above; 3/7:
  both not above; 4/8: latitude not above, longitude not below), which is counter-clockwise
  on a map with north up, as in the diagram of the source.
\<close>

theorem isInQuadrant_sign_test:
  "1 \<le> q \<and> q \<le> 8 \<longrightarrow>
     isInQuadrant e la lo de q =
       Inr ((if q \<le> 4 then depth e \<le> de else de \<le> depth e)
            \<and> (if q \<in> {1, 4, 5, 8} then lon e \<le> lo else lo \<le> lon e)
            \<and> (if q \<in> {1, 2, 5, 6} then lat e \<le> la else la \<le> lat e))
     \<and> (de < depth e \<and> isInQuadrant e la lo de q = Inr True \<longrightarrow> 5 \<le> q)
     \<and> (depth e < de \<and> isInQuadrant e la lo de q = Inr True \<longrightarrow> q \<le> 4)"
proof
  assume "1 \<le> q \<and> q \<le> 8"
  then have "q = 1 \<or> q = 2 \<or> q = 3 \<or> q = 4 \<or> q = 5 \<or> q = 6 \<or> q = 7 \<or> q = 8"
    by presburger
  then show "isInQuadrant e la lo de q =
       Inr ((if q \<le> 4 then depth e \<le> de else de \<le> depth e)
            \<and> (if q \<in> {1, 4, 5, 8} then lon e \<le> lo else lo \<le> lon e)
            \<and> (if q \<in> {1, 2, 5, 6} then lat e \<le> la else la \<le> lat e))
     \<and> (de < depth e \<and> isInQuadrant e la lo de q = Inr True \<longrightarrow> 5 \<le> q)
     \<and> (depth e < de \<and> isInQuadrant e la lo de q = Inr True \<longrightarrow> q \<le> 4)"
    by (elim disjE) (simp_all add: isInQuadrant_def not_less) 
qed

theorem isInQuadrant_sign_test_witness:
  "isInQuadrant (HddEllipsoid 10 0 0 5) 1 (- 1) 7 2 = Inr True
   \<and> isInQuadrant (HddEllipsoid 10 0 0 5) 1 (- 1) 7 4 = Inr False"
  using isInQuadrant_sign_test [of 2 "HddEllipsoid 10 0 0 5" 1 "- 1" 7]
        isInQuadrant_sign_test [of 4 "HddEllipsoid 10 0 0 5" 1 "- 1" 7]
  by (simp add: HddEllipsoid_def)

text \<open>
  The claim as stated fails twice. With the origin at depth 5, the point at depth 2 north
  east of it (strictly shallower) is not in octant 1 but in octant 5; and the point north
  west of the origin at depth 7 is in octant 2, which a clockwise labelling from NE would
  place south east.
\<close>

theorem isInQuadrant_claim_counterexample:
  "isInQuadrant (HddEllipsoid 10 0 0 5) 1 1 2 1 = Inr False
   \<and> isInQuadrant (HddEllipsoid 10 0 0 5) 1 1 2 5 = Inr True
   \<and> isInQuadrant (HddEllipsoid 10 0 0 5) 1 (- 1) 7 2 = Inr True
   \<and> isInQuadrant (HddEllipsoid 10 0 0 5) (- 1) 1 7 2 = Inr False"
  by (simp add: isInQuadrant_def HddEllipsoid_def)

subsection \<open>C10: the window indexes of S2Nratio\<close>










subsection \<open>C2: at most one phase per event, station and type\<close>

text \<open>
  The replacement test asks for an already selected phase of the same type with a smaller
  priority index; phases of the same type have the same index, so the test never succeeds
  and every phase of an accepted type is added.
\<close>

lemma replace_existing_never:
  "replace_existing toKeep evId phase (find_distance (type phase) toKeep) m = (m, False)"
  by (induction m) auto

lemma select_phase_always_adds:
  "select_phase toKeep evId phase m = mm_emplace (eventId phase) phase m"
  by (simp add: select_phase_def replace_existing_never)

text \<open>
  C2 fails on the code. Event 1 has two picks at station CH.SIMPL, of types Pg and P, both
  accepted as P phases: both are kept and both are renamed to P, so the filtered catalog
  holds two phases for the triple (1, CH.SIMPL, P).
\<close>

theorem filterOutPhases_keeps_duplicates:
  "phases (filterOutPhases
      \<lparr>stations = [],
       events = [(1, \<lparr>ev_id = 1, ev_time = 0, ev_latitude = 46, ev_longitude = 7, ev_depth = 5\<rparr>)],
       phases =
         [(1, \<lparr>eventId = 1, stationId = ''CH.SIMPL.'', time = 10, weight = 1, type = ''Pg'',
               networkCode = ''CH'', stationCode = ''SIMPL'', locationCode = [],
               channelCode = ''HHZ'', isManual = True\<rparr>),
          (1, \<lparr>eventId = 1, stationId = ''CH.SIMPL.'', time = 11, weight = 1, type = ''P'',
               networkCode = ''CH'', stationCode = ''SIMPL'', locationCode = [],
               channelCode = ''HHZ'', isManual = False\<rparr>)]\<rparr>
      [''Pg'', ''P''] [''S''])
   = [(1, \<lparr>eventId = 1, stationId = ''CH.SIMPL.'', time = 10, weight = 1, type = ''P'',
            networkCode = ''CH'', stationCode = ''SIMPL'', locationCode = [],
            channelCode = ''HHZ'', isManual = True\<rparr>),
      (1, \<lparr>eventId = 1, stationId = ''CH.SIMPL.'', time = 11, weight = 1, type = ''P'',
            networkCode = ''CH'', stationCode = ''SIMPL'', locationCode = [],
            channelCode = ''HHZ'', isManual = False\<rparr>)]
   \<and> \<not> one_phase_per_station_type (filterOutPhases
      \<lparr>stations = [],
       events = [(1, \<lparr>ev_id = 1, ev_time = 0, ev_latitude = 46, ev_longitude = 7, ev_depth = 5\<rparr>)],
       phases =
         [(1, \<lparr>eventId = 1, stationId = ''CH.SIMPL.'', time = 10, weight = 1, type = ''Pg'',
               networkCode = ''CH'', stationCode = ''SIMPL'', locationCode = [],
               channelCode = ''HHZ'', isManual = True\<rparr>),
          (1, \<lparr>eventId = 1, stationId = ''CH.SIMPL.'', time = 11, weight = 1, type = ''P'',
               networkCode = ''CH'', stationCode = ''SIMPL'', locationCode = [],
               channelCode = ''HHZ'', isManual = False\<rparr>)]\<rparr>
      [''Pg'', ''P''] [''S''])"
  by (simp add: one_phase_per_station_type_def filterOutPhases_def equal_range_def
        select_phase_def mm_emplace_def)

subsection \<open>C5: the quota of the sweep\<close>


lemma pick_event_length:
  "pick_event srcEvents found xs = Inr (Some (ev, rest)) \<Longrightarrow> length xs = Suc (length rest)"
proof (induction xs arbitrary: ev rest)
  case Nil
  then show ?case by simp
next
  case (Cons x xs)
  obtain d i where x: "x = (d, i)" by (cases x)
  show ?case using Cons.prems Cons.IH unfolding x
    by (auto split: option.splits sum.splits bool.splits)
qed

lemma quadrant_loop_inv:
  "quadrant_loop srcEvents found maxNumNeigh k qs s = Inr s' \<Longrightarrow> 0 < maxNumNeigh
     \<Longrightarrow> sweep_inv maxNumNeigh s \<Longrightarrow> sweep_inv maxNumNeigh s'"
proof (induction qs arbitrary: s)
  case Nil
  then show ?case by simp
next
  case (Cons q qs)
  show ?case
  proof (cases "selectedEvents s = [] \<or> (maxNumNeigh > 0 \<and> numNeighbors s \<ge> maxNumNeigh)")
    case True
    then have "s' = s\<lparr>workToDo := False\<rparr>" using Cons.prems(1) by auto
    then show ?thesis using Cons.prems(3) by (simp add: sweep_inv_def)
  next
    case False
    then have lt: "numNeighbors s < maxNumNeigh" using Cons.prems(2) by auto
    show ?thesis
    proof (cases "pick_event srcEvents (found k q) (selectedEvents s)")
      case (Inl e)
      then show ?thesis using Cons.prems(1) False by auto
    next
      case (Inr r)
      show ?thesis
      proof (cases r)
        case None
        then have "quadrant_loop srcEvents found maxNumNeigh k qs s = Inr s'"
          using Cons.prems(1) False Inr by auto
        then show ?thesis using Cons.IH Cons.prems by blast
      next
        case (Some p)
        obtain ev rest where p: "p = (ev, rest)" by (cases p)
        let ?s1 = "s\<lparr>neighboringEventCat := neighboringEventCat s @ [ev],
                     numNeighbors := numNeighbors s + 1, selectedEvents := rest\<rparr>"
        have "quadrant_loop srcEvents found maxNumNeigh k qs ?s1 = Inr s'"
          using Cons.prems(1) False Inr Some p by auto
        moreover have "sweep_inv maxNumNeigh ?s1"
          using Cons.prems(3) lt by (simp add: sweep_inv_def)
        ultimately show ?thesis using Cons.IH Cons.prems(2) by blast
      qed
    qed
  qed
qed

lemma ellipsoid_loop_inv:
  "ellipsoid_loop srcEvents found maxNumNeigh ks s = Inr s' \<Longrightarrow> 0 < maxNumNeigh
     \<Longrightarrow> sweep_inv maxNumNeigh s \<Longrightarrow> sweep_inv maxNumNeigh s'"
proof (induction ks arbitrary: s)
  case Nil
  then show ?case by simp
next
  case (Cons k ks)
  from Cons.prems(1) obtain s1 where
      q: "quadrant_loop srcEvents found maxNumNeigh k quadrants s = Inr s1"
      and e: "ellipsoid_loop srcEvents found maxNumNeigh ks s1 = Inr s'"
    by (auto simp del: quadrant_loop.simps split: sum.splits)
  have "sweep_inv maxNumNeigh s1"
    using quadrant_loop_inv[OF q Cons.prems(2) Cons.prems(3)] .
  then show ?case using Cons.IH[OF e Cons.prems(2)] by simp
qed

lemma sweep_while_inv:
  "sweep_while fuel srcEvents found maxNumNeigh n s = Some (Inr s') \<Longrightarrow> 0 < maxNumNeigh
     \<Longrightarrow> sweep_inv maxNumNeigh s \<Longrightarrow> sweep_inv maxNumNeigh s'"
proof (induction fuel arbitrary: s)
  case 0
  then show ?case by simp
next
  case (Suc fuel)
  show ?case
  proof (cases "workToDo s")
    case False
    then show ?thesis using Suc.prems by simp
  next
    case True
    then obtain s1 where
        e: "ellipsoid_loop srcEvents found maxNumNeigh (rev [0..<n]) s = Inr s1"
        and w: "sweep_while fuel srcEvents found maxNumNeigh n s1 = Some (Inr s')"
      using Suc.prems(1) by (auto simp del: ellipsoid_loop.simps split: sum.splits)
    have "sweep_inv maxNumNeigh s1"
      using ellipsoid_loop_inv[OF e Suc.prems(2) Suc.prems(3)] .
    then show ?thesis using Suc.IH[OF w Suc.prems(2)] by simp
  qed
qed


lemma pick_event_None:
  "pick_event srcEvents found xs = Inr None \<Longrightarrow> (d, i) \<in> set xs
     \<Longrightarrow> \<exists>ev. map_of srcEvents i = Some ev \<and> found ev = Inr False"
proof (induction xs)
  case Nil
  then show ?case by simp
next
  case (Cons x xs)
  obtain d' i' where x: "x = (d', i')" by (cases x)
  show ?case using Cons.prems Cons.IH unfolding x
    by (auto split: option.splits sum.splits bool.splits)
qed

lemma quadrant_loop_length:
  "quadrant_loop srcEvents found maxNumNeigh k qs s = Inr s'
     \<Longrightarrow> length (selectedEvents s') \<le> length (selectedEvents s)"
proof (induction qs arbitrary: s)
  case Nil
  then show ?case by simp
next
  case (Cons q qs)
  show ?case
  proof (cases "selectedEvents s = [] \<or> (maxNumNeigh > 0 \<and> numNeighbors s \<ge> maxNumNeigh)")
    case True
    then have "s' = s\<lparr>workToDo := False\<rparr>" using Cons.prems(1) by auto
    then show ?thesis by simp
  next
    case False
    show ?thesis
    proof (cases "pick_event srcEvents (found k q) (selectedEvents s)")
      case (Inl e)
      then show ?thesis using Cons.prems(1) False by auto
    next
      case (Inr r)
      show ?thesis
      proof (cases r)
        case None
        then have "quadrant_loop srcEvents found maxNumNeigh k qs s = Inr s'"
          using Cons.prems(1) False Inr by auto
        then show ?thesis using Cons.IH by blast
      next
        case (Some p)
        obtain ev rest where p: "p = (ev, rest)" by (cases p)
        let ?s1 = "s\<lparr>neighboringEventCat := neighboringEventCat s @ [ev],
                     numNeighbors := numNeighbors s + 1, selectedEvents := rest\<rparr>"
        have "quadrant_loop srcEvents found maxNumNeigh k qs ?s1 = Inr s'"
          using Cons.prems(1) False Inr Some p by auto
        then have "length (selectedEvents s') \<le> length (selectedEvents ?s1)"
          using Cons.IH by blast
        moreover have "length (selectedEvents s) = Suc (length rest)"
          using pick_event_length Inr Some p by blast
        ultimately show ?thesis by simp
      qed
    qed
  qed
qed

lemma quadrant_loop_progress:
  "quadrant_loop srcEvents found maxNumNeigh k qs s = Inr s'
     \<Longrightarrow> \<not> workToDo s'
         \<or> length (selectedEvents s') < length (selectedEvents s)
         \<or> (s' = s \<and> (\<forall>q\<in>set qs. selectedEvents s \<noteq> []
                \<and> pick_event srcEvents (found k q) (selectedEvents s) = Inr None))"
proof (induction qs arbitrary: s)
  case Nil
  then show ?case by simp
next
  case (Cons q qs)
  show ?case
  proof (cases "selectedEvents s = [] \<or> (maxNumNeigh > 0 \<and> numNeighbors s \<ge> maxNumNeigh)")
    case True
    then have "s' = s\<lparr>workToDo := False\<rparr>" using Cons.prems(1) by auto
    then show ?thesis by simp
  next
    case False
    show ?thesis
    proof (cases "pick_event srcEvents (found k q) (selectedEvents s)")
      case (Inl e)
      then show ?thesis using Cons.prems(1) False by auto
    next
      case (Inr r)
      show ?thesis
      proof (cases r)
        case None
        then have "quadrant_loop srcEvents found maxNumNeigh k qs s = Inr s'"
          using Cons.prems(1) False Inr by auto
        from Cons.IH[OF this] show ?thesis using False Inr None by auto
      next
        case (Some p)
        obtain ev rest where p: "p = (ev, rest)" by (cases p)
        let ?s1 = "s\<lparr>neighboringEventCat := neighboringEventCat s @ [ev],
                     numNeighbors := numNeighbors s + 1, selectedEvents := rest\<rparr>"
        have "quadrant_loop srcEvents found maxNumNeigh k qs ?s1 = Inr s'"
          using Cons.prems(1) False Inr Some p by auto
        then have "length (selectedEvents s') \<le> length (selectedEvents ?s1)"
          by (rule quadrant_loop_length)
        moreover have "length (selectedEvents s) = Suc (length rest)"
          using pick_event_length Inr Some p by blast
        ultimately show ?thesis by simp
      qed
    qed
  qed
qed

lemma ellipsoid_loop_length:
  "ellipsoid_loop srcEvents found maxNumNeigh ks s = Inr s'
     \<Longrightarrow> length (selectedEvents s') \<le> length (selectedEvents s)"
proof (induction ks arbitrary: s)
  case Nil
  then show ?case by simp
next
  case (Cons k ks)
  from Cons.prems(1) obtain s1 where
      q: "quadrant_loop srcEvents found maxNumNeigh k quadrants s = Inr s1"
      and e: "ellipsoid_loop srcEvents found maxNumNeigh ks s1 = Inr s'"
    by (auto simp del: quadrant_loop.simps split: sum.splits)
  show ?case using quadrant_loop_length[OF q] Cons.IH[OF e] by simp
qed


lemma ellipsoid_loop_progress:
  "ellipsoid_loop srcEvents found maxNumNeigh ks s = Inr s'
     \<Longrightarrow> \<not> workToDo s'
         \<or> length (selectedEvents s') < length (selectedEvents s)
         \<or> (s' = s \<and> (\<forall>k\<in>set ks. \<forall>q\<in>set quadrants. selectedEvents s \<noteq> []
                \<and> pick_event srcEvents (found k q) (selectedEvents s) = Inr None))"
proof (induction ks arbitrary: s)
  case Nil
  then show ?case by simp
next
  case (Cons k ks)
  from Cons.prems(1) obtain s1 where
      q: "quadrant_loop srcEvents found maxNumNeigh k quadrants s = Inr s1"
      and e: "ellipsoid_loop srcEvents found maxNumNeigh ks s1 = Inr s'"
    by (auto simp del: quadrant_loop.simps split: sum.splits)
  note len1 = quadrant_loop_length[OF q]
  note len2 = ellipsoid_loop_length[OF e]
  from quadrant_loop_progress[OF q] consider
      (stop) "\<not> workToDo s1"
    | (less) "length (selectedEvents s1) < length (selectedEvents s)"
    | (same) "s1 = s" "\<forall>q\<in>set quadrants. selectedEvents s \<noteq> []
                \<and> pick_event srcEvents (found k q) (selectedEvents s) = Inr None"
    by blast
  then show ?case
  proof cases
    case stop
    from Cons.IH[OF e] show ?thesis
    proof (elim disjE)
      assume "\<not> workToDo s'" then show ?thesis by simp
    next
      assume "length (selectedEvents s') < length (selectedEvents s1)"
      then show ?thesis using len1 by simp
    next
      assume "s' = s1 \<and> (\<forall>k\<in>set ks. \<forall>q\<in>set quadrants. selectedEvents s1 \<noteq> []
                \<and> pick_event srcEvents (found k q) (selectedEvents s1) = Inr None)"
      then show ?thesis using stop by simp
    qed
  next
    case less
    then show ?thesis using len2 by simp
  next
    case same
    from Cons.IH[OF e] show ?thesis
    proof (elim disjE)
      assume "\<not> workToDo s'" then show ?thesis by simp
    next
      assume "length (selectedEvents s') < length (selectedEvents s1)"
      then show ?thesis using same(1) by simp
    next
      assume a: "s' = s1 \<and> (\<forall>k\<in>set ks. \<forall>q\<in>set quadrants. selectedEvents s1 \<noteq> []
                \<and> pick_event srcEvents (found k q) (selectedEvents s1) = Inr None)"
      have "s' = s" using a same(1) by simp
      moreover have "\<forall>k'\<in>set (k # ks). \<forall>q\<in>set quadrants. selectedEvents s \<noteq> []
                \<and> pick_event srcEvents (found k' q) (selectedEvents s) = Inr None"
        using a same by (simp del: pick_event.simps)
      ultimately show ?thesis by blast
    qed
  qed
qed

lemma sweep_while_terminates:
  assumes cov: "\<And>ev. \<exists>k<n. \<exists>q\<in>set quadrants. found k q ev = Inr True"
    and n: "0 < n"
  shows "length (selectedEvents s) + 2 \<le> fuel
           \<Longrightarrow> \<exists>r. sweep_while fuel srcEvents found maxNumNeigh n s = Some r"
proof (induction fuel arbitrary: s)
  case 0
  then show ?case by simp
next
  case (Suc fuel)
  show ?case
  proof (cases "workToDo s")
    case False
    then show ?thesis by simp
  next
    case True
    show ?thesis
    proof (cases "ellipsoid_loop srcEvents found maxNumNeigh (rev [0..<n]) s")
      case (Inl e)
      then show ?thesis using True by simp
    next
      case (Inr s1)
      have step: "sweep_while (Suc fuel) srcEvents found maxNumNeigh n s
                  = sweep_while fuel srcEvents found maxNumNeigh n s1"
        using True Inr by simp
      from ellipsoid_loop_progress[OF Inr] consider
          (stop) "\<not> workToDo s1"
        | (less) "length (selectedEvents s1) < length (selectedEvents s)"
        | (same) "s1 = s" "\<forall>k\<in>set (rev [0..<n]). \<forall>q\<in>set quadrants.
              selectedEvents s \<noteq> []
              \<and> pick_event srcEvents (found k q) (selectedEvents s) = Inr None"
        by blast
      then show ?thesis
      proof cases
        case stop
        obtain f' where f': "fuel = Suc f'" using Suc.prems by (cases fuel) simp_all
        have "sweep_while fuel srcEvents found maxNumNeigh n s1 = Some (Inr s1)"
          unfolding f' using stop by simp
        then show ?thesis using step by simp
      next
        case less
        then have "length (selectedEvents s1) + 2 \<le> fuel" using Suc.prems by simp
        from Suc.IH[OF this] show ?thesis unfolding step .
      next
        case same
        have k0: "0 \<in> set (rev [0..<n])" using n by simp
        have q1: "(1::int) \<in> set quadrants" by (simp add: quadrants_def)
        from same(2) k0 q1 have ne: "selectedEvents s \<noteq> []" by blast
        then obtain d i rest where sel: "selectedEvents s = (d, i) # rest"
          by (cases "selectedEvents s") auto
        have none: "pick_event srcEvents (found 0 1) (selectedEvents s) = Inr None"
          using same(2) k0 q1 by blast
        obtain ev where ev: "map_of srcEvents i = Some ev"
          using pick_event_None[OF none, of d i] sel by auto
        obtain k q where kq: "k < n" "q \<in> set quadrants" "found k q ev = Inr True"
          using cov[of ev] by blast
        have "k \<in> set (rev [0..<n])" using kq(1) by simp
        with same(2) kq(2)
        have "pick_event srcEvents (found k q) (selectedEvents s) = Inr None"
          by blast
        from pick_event_None[OF this, of d i] sel ev kq(3) show ?thesis by simp
      qed
    qed
  qed
qed


lemma dbl_div_zero: "0 \<le> v \<Longrightarrow> dbl_div v 0 = PInf \<or> dbl_div v 0 = NaN"
  by (auto simp: dbl_div_def)

lemma dbl_add_PInf_NaN:
  "a = PInf \<or> a = NaN \<Longrightarrow> b = PInf \<or> b = NaN \<Longrightarrow> dbl_add a b = PInf \<or> dbl_add a b = NaN"
  by auto

lemma degenerate_ellipsoid_empty:
  "\<not> Ellipsoid_isInside delazi deg2km (HddEllipsoid 0 la lo de) x y z"
proof -
  obtain d0 a0 where dz: "delazi x y la lo = (d0, a0)" by (cases "delazi x y la lo")
  let ?dx = "deg2km d0 * cos (a0 + 0)"
  let ?dy = "deg2km d0 * sin (a0 + 0)"
  let ?dz = "\<bar>z - de\<bar>"
  have a: "dbl_div (?dx ^ 2) 0 = PInf \<or> dbl_div (?dx ^ 2) 0 = NaN" by (rule dbl_div_zero) simp
  have b: "dbl_div (?dy ^ 2) 0 = PInf \<or> dbl_div (?dy ^ 2) 0 = NaN" by (rule dbl_div_zero) simp
  have c: "dbl_div (?dz ^ 2) 0 = PInf \<or> dbl_div (?dz ^ 2) 0 = NaN" by (rule dbl_div_zero) simp
  let ?one = "dbl_add (dbl_add (dbl_div (?dx ^ 2) 0) (dbl_div (?dy ^ 2) 0)) (dbl_div (?dz ^ 2) 0)"
  have "?one = PInf \<or> ?one = NaN"
    by (rule dbl_add_PInf_NaN[OF dbl_add_PInf_NaN[OF a b] c])
  then have "\<not> dbl_ge (Fin 1) ?one" by auto
  then show ?thesis
    by (simp add: Ellipsoid_isInside_def HddEllipsoid_def dz)
qed

lemma isInQuadrant_some: "\<exists>q\<in>set quadrants. isInQuadrant e la lo de q = Inr True"
proof -
  let ?q = "(if de < depth e then 4 else 0)
            + (if lo < lon e then (if la < lat e then 3 else 2)
               else (if la < lat e then 4 else (1::int)))"
  have "?q \<in> set quadrants" by (simp add: quadrants_def)
  moreover have "isInQuadrant e la lo de ?q = Inr True"
    by (simp add: isInQuadrant_def)
  ultimately show ?thesis by blast
qed

lemma isInQuadrant_origin:
  "lat e = lat e' \<Longrightarrow> lon e = lon e' \<Longrightarrow> depth e = depth e'
     \<Longrightarrow> isInQuadrant e la lo de q = isInQuadrant e' la lo de q"
  by (simp add: isInQuadrant_def)

lemma halving_ellipsoids_origin:
  "e \<in> set (halving_ellipsoids n sz la lo de) \<Longrightarrow> lat e = la \<and> lon e = lo \<and> depth e = de"
  by (induction n arbitrary: sz) (auto simp: HddEllipsoid_def)

lemma make_ellipsoids_origin:
  "e \<in> set (make_ellipsoids numEllipsoids maxEllipsoidSize refEv)
     \<Longrightarrow> lat e = ev_latitude refEv \<and> lon e = ev_longitude refEv \<and> depth e = ev_depth refEv"
  by (auto simp: make_ellipsoids_def HddEllipsoid_def dest: halving_ellipsoids_origin)

lemma make_ellipsoids_last:
  "make_ellipsoids numEllipsoids maxEllipsoidSize refEv \<noteq> []
   \<and> last (make_ellipsoids numEllipsoids maxEllipsoidSize refEv)
       = HddEllipsoid 0 (ev_latitude refEv) (ev_longitude refEv) (ev_depth refEv)"
  by (simp add: make_ellipsoids_def)

lemma found_in_cell_cover:
  fixes delazi deg2km numEllipsoids maxEllipsoidSize refEv
  defines "ells \<equiv> make_ellipsoids numEllipsoids maxEllipsoidSize refEv"
  defines "ins \<equiv> Ellipsoid_isInside delazi deg2km"
  shows "\<exists>k<length ells. \<exists>q\<in>set quadrants. found_in_cell ins ells k q ev = Inr True"
proof -
  let ?P = "\<lambda>k. ins (ells ! k) (ev_latitude ev) (ev_longitude ev) (ev_depth ev)"
  have ne: "ells \<noteq> []" and lst: "last ells
       = HddEllipsoid 0 (ev_latitude refEv) (ev_longitude refEv) (ev_depth refEv)"
    using make_ellipsoids_last[of numEllipsoids maxEllipsoidSize refEv] by (simp_all add: ells_def)
  have "ells ! (length ells - 1) = last ells" using ne by (simp add: last_conv_nth)
  then have nl: "\<not> ?P (length ells - 1)"
    using lst degenerate_ellipsoid_empty by (simp add: ins_def)
  define k where "k = (LEAST k. \<not> ?P k)"
  have nk: "\<not> ?P k" unfolding k_def using nl by (rule LeastI)
  have kle: "k \<le> length ells - 1" unfolding k_def using nl by (rule Least_le)
  then have klt: "k < length ells" using ne by (cases ells) simp_all
  have below: "?P j" if "j < k" for j
    using that not_less_Least[of j "\<lambda>k. \<not> ?P k"] by (auto simp: k_def)
  obtain q where q: "q \<in> set quadrants"
      "isInQuadrant (ells ! k) (ev_latitude ev) (ev_longitude ev) (ev_depth ev) q = Inr True"
    using isInQuadrant_some by blast
  have out: "isOutside ins (ells ! k) (ev_latitude ev) (ev_longitude ev) (ev_depth ev) q = Inr True"
    using q(2) nk by (simp add: isOutside_def)
  have "found_in_cell ins ells k q ev = Inr True"
  proof (cases "k = 0")
    case True
    then show ?thesis using out by (simp add: found_in_cell_def)
  next
    case False
    then have k1: "k - 1 < k" by simp
    have mem: "ells ! k \<in> set ells" "ells ! (k - 1) \<in> set ells"
      using klt by (simp_all add: less_imp_diff_less)
    have "isInQuadrant (ells ! (k - 1)) (ev_latitude ev) (ev_longitude ev) (ev_depth ev) q
          = isInQuadrant (ells ! k) (ev_latitude ev) (ev_longitude ev) (ev_depth ev) q"
      using make_ellipsoids_origin mem unfolding ells_def
      by (intro isInQuadrant_origin) simp_all
    then have "isInside ins (ells ! (k - 1)) (ev_latitude ev) (ev_longitude ev) (ev_depth ev) q
          = Inr True"
      using q(2) below[OF k1] by (simp add: isInside_def)
    then show ?thesis using out False by (simp add: found_in_cell_def)
  qed
  then show ?thesis using klt q(1) by blast
qed


text \<open>
  C5. With \<open>maxNumNeigh > 0\<close>, whenever the sweep returns a neighbour catalog it holds at
  most \<open>maxNumNeigh\<close> events: every insertion comes right after a quota check in the same
  iteration of the quadrant loop, and the \<open>break\<close> leaves a state in which every later
  iteration of the outer loops fails the same check at once. The sweep does return: every
  event lies in some quadrant of some shell (the last ellipsoid, of size 0, contains no
  point), so each round of the \<open>while\<close> loop removes an event or stops, and
  \<open>length selectedEvents + 2\<close> rounds are enough.
\<close>

theorem sweep_quota:
  "0 < maxNumNeigh \<longrightarrow>
     (\<forall>fuel neighbours.
        selectNeighbouringEvents_sweep fuel delazi deg2km srcEvents refEv selected
          minNumNeigh maxNumNeigh numEllipsoids maxEllipsoidSize = Some (Inr neighbours)
        \<longrightarrow> int (length neighbours) \<le> maxNumNeigh)
     \<and> (\<exists>res. selectNeighbouringEvents_sweep (length selected + 2) delazi deg2km srcEvents refEv
            selected minNumNeigh maxNumNeigh numEllipsoids maxEllipsoidSize = Some res)"
proof (intro impI conjI allI)
  fix fuel neighbours
  assume pos: "0 < maxNumNeigh"
    and res: "selectNeighbouringEvents_sweep fuel delazi deg2km srcEvents refEv selected
          minNumNeigh maxNumNeigh numEllipsoids maxEllipsoidSize = Some (Inr neighbours)"
  let ?ells = "make_ellipsoids numEllipsoids maxEllipsoidSize refEv"
  let ?found = "found_in_cell (Ellipsoid_isInside delazi deg2km) ?ells"
  let ?s0 = "\<lparr>selectedEvents = selected, neighboringEventCat = [],
               numNeighbors = 0, workToDo = True\<rparr>"
  from res obtain s where
      w: "sweep_while fuel srcEvents ?found maxNumNeigh (length ?ells) ?s0 = Some (Inr s)"
      and n: "neighbours = neighboringEventCat s"
    by (auto simp: selectNeighbouringEvents_sweep_def Let_def
             split: option.splits sum.splits if_splits)
  have "sweep_inv maxNumNeigh ?s0" using pos by (simp add: sweep_inv_def)
  from sweep_while_inv[OF w pos this] show "int (length neighbours) \<le> maxNumNeigh"
    using n by (simp add: sweep_inv_def)
next
  assume pos: "0 < maxNumNeigh"
  let ?ells = "make_ellipsoids numEllipsoids maxEllipsoidSize refEv"
  let ?found = "found_in_cell (Ellipsoid_isInside delazi deg2km) ?ells"
  let ?s0 = "\<lparr>selectedEvents = selected, neighboringEventCat = [],
               numNeighbors = 0, workToDo = True\<rparr>"
  have cov: "\<And>ev. \<exists>k<length ?ells. \<exists>q\<in>set quadrants. ?found k q ev = Inr True"
    by (rule found_in_cell_cover)
  have n: "0 < length ?ells" using make_ellipsoids_last[of numEllipsoids maxEllipsoidSize refEv] by simp
  have "\<exists>r. sweep_while (length selected + 2) srcEvents ?found maxNumNeigh (length ?ells) ?s0
           = Some r"
  proof (rule sweep_while_terminates)
    show "\<exists>k<length ?ells. \<exists>q\<in>set quadrants. ?found k q ev = Inr True" for ev
      by (rule cov)
    show "0 < length ?ells" by (rule n)
    show "length (selectedEvents ?s0) + 2 \<le> length selected + 2" by simp
  qed
  then show "\<exists>res. selectNeighbouringEvents_sweep (length selected + 2) delazi deg2km srcEvents refEv
            selected minNumNeigh maxNumNeigh numEllipsoids maxEllipsoidSize = Some res"
    by (auto simp: selectNeighbouringEvents_sweep_def Let_def split: sum.splits)
qed



theorem sweep_quota_witness:
  "(0::int) < 1
   \<and> selectNeighbouringEvents_sweep 4 (\<lambda>lat1 lon1 lat2 lon2. (0, 0)) (\<lambda>d. d * 111)
        [(1, \<lparr>ev_id = 1, ev_time = 0, ev_latitude = 1, ev_longitude = 1, ev_depth = 7\<rparr>),
         (2, \<lparr>ev_id = 2, ev_time = 0, ev_latitude = 1, ev_longitude = 1, ev_depth = 8\<rparr>)]
        \<lparr>ev_id = 0, ev_time = 0, ev_latitude = 0, ev_longitude = 0, ev_depth = 5\<rparr>
        [(2, 1), (3, 2)] 1 1 1 10
      = Some (Inr [\<lparr>ev_id = 1, ev_time = 0, ev_latitude = 1, ev_longitude = 1, ev_depth = 7\<rparr>])
   \<and> int (length [\<lparr>ev_id = 1, ev_time = 0, ev_latitude = 1, ev_longitude = 1, ev_depth = 7\<rparr>]) \<le> 1"
  using sweep_quota [of 1 "\<lambda>lat1 lon1 lat2 lon2. (0, 0)" "\<lambda>d. d * 111"
        "[(1, \<lparr>ev_id = 1, ev_time = 0, ev_latitude = 1, ev_longitude = 1, ev_depth = 7\<rparr>),
          (2, \<lparr>ev_id = 2, ev_time = 0, ev_latitude = 1, ev_longitude = 1, ev_depth = 8\<rparr>)]"
        "\<lparr>ev_id = 0, ev_time = 0, ev_latitude = 0, ev_longitude = 0, ev_depth = 5\<rparr>"
        "[(2, 1), (3, 2)]" 1 1 10]
  by (simp add: selectNeighbouringEvents_sweep_def make_ellipsoids_def HddEllipsoid_def
        found_in_cell_def isOutside_def isInQuadrant_def Ellipsoid_isInside_def dbl_div_def
        quadrants_def numeral_eq_Suc)

subsection \<open>C6: every pair of events is reported once\<close>


lemma set_mm_emplace: "set (mm_emplace k v m) = insert (k, v) (set m)"
proof -
  have "set m = set (takeWhile (\<lambda>kv. fst kv \<le> k) m) \<union> set (dropWhile (\<lambda>kv. fst kv \<le> k) m)"
    by (metis set_append takeWhile_dropWhile_id)
  then show ?thesis by (auto simp: mm_emplace_def)
qed

lemma set_equal_range: "set (equal_range k m) = {v. (k, v) \<in> set m}"
  by (force simp: equal_range_def)

lemma set_fold_removeEvent: "set (fold removeEvent xs c) = set c - set xs"
  by (induction xs arbitrary: c) (auto simp: removeEvent_def)

lemma set_fold_emplace:
  "set (fold (\<lambda>k ep. if k \<noteq> cur then mm_emplace k cur ep else ep) c ep)
     = set ep \<union> {(k, cur) | k. k \<in> set c \<and> k \<noteq> cur}"
  by (induction c arbitrary: ep) (auto simp: set_mm_emplace)

lemma remove_existing_pairs_keys: "map fst (remove_existing_pairs nb ep) = map fst nb"
  by (induction nb ep rule: remove_existing_pairs.induct) (simp_all add: Let_def)

lemma remove_existing_pairs_later:
  "(B, rB) \<in> set (remove_existing_pairs nb ep) \<Longrightarrow> (B, A) \<in> set ep \<Longrightarrow> A \<notin> set rB"
proof (induction nb ep rule: remove_existing_pairs.induct)
  case (1 ep)
  then show ?case by simp
next
  case (2 cur cat rest ep)
  let ?cat' = "fold removeEvent (equal_range cur ep) cat"
  let ?ep' = "fold (\<lambda>k ep. if k \<noteq> cur then mm_emplace k cur ep else ep) ?cat' ep"
  from "2.prems"(1) consider (head) "B = cur" "rB = ?cat'"
    | (tail) "(B, rB) \<in> set (remove_existing_pairs rest ?ep')"
    by (auto simp: Let_def)
  then show ?case
  proof cases
    case head
    then show ?thesis using "2.prems"(2) by (simp add: set_fold_removeEvent set_equal_range)
  next
    case tail
    have "(B, A) \<in> set ?ep'" using "2.prems"(2) by (simp add: set_fold_emplace)
    then show ?thesis using "2.IH"[OF refl refl tail] by simp
  qed
qed

lemma remove_existing_pairs_first:
  assumes "sorted_wrt (<) (map fst nb)"
    and "\<forall>(k, c)\<in>set ep. c \<notin> fst ` set nb"
    and "(A, cA) \<in> set nb" "(B, cB) \<in> set nb" "A < B" "B \<in> set cA"
    and "(A, rA) \<in> set (remove_existing_pairs nb ep)"
    and "(B, rB) \<in> set (remove_existing_pairs nb ep)"
  shows "B \<in> set rA \<and> A \<notin> set rB"
  using assms
proof (induction nb ep rule: remove_existing_pairs.induct)
  case (1 ep)
  then show ?case by simp
next
  case (2 cur cat rest ep)
  let ?cat' = "fold removeEvent (equal_range cur ep) cat"
  let ?ep' = "fold (\<lambda>k ep. if k \<noteq> cur then mm_emplace k cur ep else ep) ?cat' ep"
  have res: "remove_existing_pairs ((cur, cat) # rest) ep
             = (cur, ?cat') # remove_existing_pairs rest ?ep'"
    by (simp add: Let_def)
  have srt: "sorted_wrt (<) (map fst rest)" and low: "\<forall>k\<in>fst ` set rest. cur < k"
    using "2.prems"(1) by auto
  have keys: "fst ` set (remove_existing_pairs rest ?ep') = fst ` set rest"
    using remove_existing_pairs_keys[of rest ?ep'] by (metis list.set_map)
  have Bne: "B \<noteq> cur"
  proof
    assume "B = cur"
    moreover have "A = cur \<or> A \<in> fst ` set rest" using "2.prems"(3) by force
    ultimately show False using low "2.prems"(5) by auto
  qed
  then have Brest: "(B, cB) \<in> set rest" and rBrest: "(B, rB) \<in> set (remove_existing_pairs rest ?ep')"
    using "2.prems"(4,8) res by auto
  show ?case
  proof (cases "A = cur")
    case True
    have "A \<notin> fst ` set rest" using low True by auto
    then have cA: "cA = cat" and rA: "rA = ?cat'"
      using "2.prems"(3,7) True res keys by (auto simp: rev_image_eqI)
    have "(A, B) \<notin> set ep"
    proof
      assume "(A, B) \<in> set ep"
      then have "B \<notin> fst ` set ((cur, cat) # rest)" using "2.prems"(2) by blast
      then show False using "2.prems"(4) by force
    qed
    then have BrA: "B \<in> set rA"
      using "2.prems"(6) cA rA True by (simp add: set_fold_removeEvent set_equal_range)
    then have "(B, A) \<in> set ?ep'"
      using rA True Bne by (simp add: set_fold_emplace)
    from remove_existing_pairs_later[OF rBrest this] BrA show ?thesis by simp
  next
    case False
    then have Arest: "(A, cA) \<in> set rest" and rArest: "(A, rA) \<in> set (remove_existing_pairs rest ?ep')"
      using "2.prems"(3,7) res by auto
    have inv: "\<forall>(k, c)\<in>set ?ep'. c \<notin> fst ` set rest"
    proof -
      have "cur \<notin> fst ` set rest" using low by auto
      moreover have "\<forall>(k, c)\<in>set ep. c \<notin> fst ` set rest" using "2.prems"(2) by auto
      ultimately show ?thesis by (auto simp: set_fold_emplace)
    qed
    show ?thesis
      using "2.IH"[OF refl refl srt inv Arest Brest "2.prems"(5,6) rArest rBrest] .
  qed
qed


lemma collect_neighbours_keys:
  "map fst (collect_neighbours select ids) = filter (\<lambda>i. \<exists>c. select i = Inr c) ids"
  by (induction ids) (auto split: sum.splits)

lemma collect_neighbours_mem:
  "i \<in> set ids \<Longrightarrow> select i = Inr c \<Longrightarrow> (i, copyEvent i c) \<in> set (collect_neighbours select ids)"
  by (induction ids) (auto split: sum.splits)

lemma set_copyEvent: "set (copyEvent i c) = insert i (set c)"
  by (auto simp: copyEvent_def set_insort_key)


text \<open>
  C6. The events of the catalog are visited in ascending id order. If \<open>A < B\<close> are events
  for which the selection succeeds, \<open>B\<close> is among the neighbours selected for \<open>A\<close> and
  \<open>A\<close> among those selected for \<open>B\<close>, then in the returned map the catalog of \<open>A\<close> still
  holds \<open>B\<close> and the catalog of \<open>B\<close> no longer holds \<open>A\<close>: the pair is present in exactly
  one of the two neighbour catalogs.
\<close>

theorem pairs_reported_once:
  "sorted_wrt (<) eventIds \<and> A \<in> set eventIds \<and> B \<in> set eventIds \<and> A < B
     \<and> select A = Inr nA \<and> B \<in> set nA \<and> select B = Inr nB \<and> A \<in> set nB
   \<longrightarrow> (\<exists>rA rB. map_of (selectNeighbouringEventsCatalog select eventIds) A = Some rA
          \<and> map_of (selectNeighbouringEventsCatalog select eventIds) B = Some rB
          \<and> B \<in> set rA \<and> A \<notin> set rB)"
proof
  assume a: "sorted_wrt (<) eventIds \<and> A \<in> set eventIds \<and> B \<in> set eventIds \<and> A < B
     \<and> select A = Inr nA \<and> B \<in> set nA \<and> select B = Inr nB \<and> A \<in> set nB"
  let ?nb = "collect_neighbours select eventIds"
  let ?res = "remove_existing_pairs ?nb []"
  have srt: "sorted_wrt (<) (map fst ?nb)"
    using a by (simp add: collect_neighbours_keys sorted_wrt_filter)
  have memA: "(A, copyEvent A nA) \<in> set ?nb" and memB: "(B, copyEvent B nB) \<in> set ?nb"
    using a by (simp_all add: collect_neighbours_mem)
  have keys: "map fst ?res = map fst ?nb" by (rule remove_existing_pairs_keys)
  have dist: "distinct (map fst ?res)"
    unfolding keys using srt by (simp add: strict_sorted_iff)
  have "A \<in> set (map fst ?res)" "B \<in> set (map fst ?res)"
    unfolding keys using memA memB by force+
  then obtain rA rB where r: "(A, rA) \<in> set ?res" "(B, rB) \<in> set ?res"
    by auto
  have inv: "\<forall>(k, c)\<in>set []. c \<notin> fst ` set ?nb" by simp
  have BA: "B \<in> set (copyEvent A nA)" using a by (simp add: set_copyEvent)
  have "B \<in> set rA \<and> A \<notin> set rB"
    using remove_existing_pairs_first[OF srt inv memA memB _ BA r] a by simp
  moreover have "map_of ?res A = Some rA" "map_of ?res B = Some rB"
    using r dist by simp_all
  ultimately show "\<exists>rA rB. map_of (selectNeighbouringEventsCatalog select eventIds) A = Some rA
          \<and> map_of (selectNeighbouringEventsCatalog select eventIds) B = Some rB
          \<and> B \<in> set rA \<and> A \<notin> set rB"
    by (simp add: selectNeighbouringEventsCatalog_def)
qed


theorem pairs_reported_once_witness:
  "sorted_wrt (<) [1, 2, 3, 4::nat]
   \<and> map_of (selectNeighbouringEventsCatalog
         (\<lambda>i. if i = 1 then Inr [2, 3] else if i = 2 then Inr [1, 3]
              else if i = 3 then Inr [1] else Inl RuntimeError) [1, 2, 3, 4]) 1 = Some [1, 2, 3]
   \<and> map_of (selectNeighbouringEventsCatalog
         (\<lambda>i. if i = 1 then Inr [2, 3] else if i = 2 then Inr [1, 3]
              else if i = 3 then Inr [1] else Inl RuntimeError) [1, 2, 3, 4]) 3 = Some [3]"
  using pairs_reported_once [of "[1, 2, 3, 4]" 1 3
      "\<lambda>i. if i = 1 then Inr [2, 3] else if i = 2 then Inr [1, 3]
           else if i = 3 then Inr [1] else Inl RuntimeError" "[2, 3]" "[1]"]
  by (simp add: selectNeighbouringEventsCatalog_def copyEvent_def removeEvent_def
        equal_range_def mm_emplace_def)

subsection \<open>C1: the quality check of the cross-correlation\<close>


lemma cycle_skipping_count:
  "numMax \<le> 1 \<Longrightarrow>
     cycle_skipping threshold maxs numMax
       = (1 < numMax + int (length (filter (\<lambda>m. isfinite m \<and> dbl_ge m (Fin threshold)) maxs)))"
  by (induction maxs arbitrary: numMax) (auto simp: Let_def)

lemma xcorr_sums_inv:
  "0 \<le> dL \<Longrightarrow> 0 \<le> dS \<Longrightarrow> (dL = 0 \<longrightarrow> n = 0) \<Longrightarrow> (dS = 0 \<longrightarrow> n = 0)
     \<Longrightarrow> xcorr_sums smpsS smpsL delay idxs (n, dL, dS) = (n', dL', dS')
     \<Longrightarrow> 0 \<le> dL' \<and> 0 \<le> dS' \<and> (dL' = 0 \<longrightarrow> n' = 0) \<and> (dS' = 0 \<longrightarrow> n' = 0)"
proof (induction idxs arbitrary: n dL dS)
  case Nil
  then show ?case by simp
next
  case (Cons i idxs)
  let ?idxL = "int i + (int (length smpsL) - int (length smpsS)) div 2 + delay"
  show ?case
  proof (cases "?idxL < 0 \<or> ?idxL \<ge> int (length smpsL)")
    case True
    then have "xcorr_sums smpsS smpsL delay idxs (n, dL, dS) = (n', dL', dS')"
      using Cons.prems(5) by (simp add: Let_def)
    from Cons.IH[OF Cons.prems(1-4) this] show ?thesis .
  next
    case False
    let ?s = "smpsS ! i" and ?l = "smpsL ! nat ?idxL"
    have r: "xcorr_sums smpsS smpsL delay idxs (n + ?s * ?l, dL + ?l * ?l, dS + ?s * ?s)
             = (n', dL', dS')"
      using Cons.prems(5) False by (simp add: Let_def)
    have a: "0 \<le> dL + ?l * ?l" and b: "0 \<le> dS + ?s * ?s"
      using Cons.prems(1,2) by simp_all
    have c: "dL + ?l * ?l = 0 \<longrightarrow> n + ?s * ?l = 0"
    proof
      assume "dL + ?l * ?l = 0"
      then have "dL = 0 \<and> ?l * ?l = 0"
        using Cons.prems(1) by (simp add: add_nonneg_eq_0_iff)
      then show "n + ?s * ?l = 0" using Cons.prems(3) by simp
    qed
    have d: "dS + ?s * ?s = 0 \<longrightarrow> n + ?s * ?l = 0"
    proof
      assume "dS + ?s * ?s = 0"
      then have "dS = 0 \<and> ?s * ?s = 0"
        using Cons.prems(2) by (simp add: add_nonneg_eq_0_iff)
      then show "n + ?s * ?l = 0" using Cons.prems(4) by simp
    qed
    from Cons.IH[OF a b c d r] show ?thesis .
  qed
qed

lemma xcorr_coeff_Fin_or_NaN:
  "(\<exists>x. xcorr_coeff smpsS smpsL delay = Fin x) \<or> xcorr_coeff smpsS smpsL delay = NaN"
proof -
  obtain n dL dS where r: "xcorr_sums smpsS smpsL delay [0..<length smpsS] (0, 0, 0) = (n, dL, dS)"
    by (cases "xcorr_sums smpsS smpsL delay [0..<length smpsS] (0, 0, 0)") auto
  have inv: "0 \<le> dL \<and> 0 \<le> dS \<and> (dL = 0 \<longrightarrow> n = 0) \<and> (dS = 0 \<longrightarrow> n = 0)"
    by (rule xcorr_sums_inv[OF _ _ _ _ r]) simp_all
  have "sqrt (dS * dL) = 0 \<longrightarrow> n = 0" using inv by auto
  then show ?thesis using r by (auto simp: xcorr_coeff_def dbl_div_def)
qed

lemma xcorr_step_coeffOut:
  "coeffOut (xcorr_step freq st d c)
     = (if dbl_less (coeffOut st) c \<or> \<not> isfinite (coeffOut st) then c else coeffOut st)"
  by (simp add: xcorr_step_def Let_def)

lemma xcorr_loop_coeffOut:
  assumes "no_inf (coeffOut st)"
  shows "(let r = coeffOut (xcorr_loop freq smpsS smpsL ds st);
              cs = map (xcorr_coeff smpsS smpsL) ds
          in no_inf r
             \<and> (r = coeffOut st \<or> r \<in> set cs)
             \<and> (isfinite r \<longleftrightarrow> isfinite (coeffOut st) \<or> (\<exists>c\<in>set cs. isfinite c))
             \<and> (isfinite (coeffOut st) \<longrightarrow> dbl_ge r (coeffOut st))
             \<and> (\<forall>c\<in>set cs. isfinite c \<longrightarrow> dbl_ge r c))"
  using assms
proof (induction ds arbitrary: st)
  case Nil
  then show ?case by (cases "coeffOut st") (simp_all add: Let_def)
next
  case (Cons d ds)
  let ?c = "xcorr_coeff smpsS smpsL d"
  let ?st = "xcorr_step freq st d ?c"
  note co = xcorr_step_coeffOut
  have cn: "no_inf ?c" using xcorr_coeff_Fin_or_NaN[of smpsS smpsL d] by (auto simp: no_inf_def)
  have n1: "no_inf (coeffOut ?st)" using cn Cons.prems by (simp add: co)
  note ih = Cons.IH[OF n1, unfolded Let_def]
  let ?r = "coeffOut (xcorr_loop freq smpsS smpsL ds ?st)"
  have ge_trans: "dbl_ge a b \<Longrightarrow> dbl_ge b c \<Longrightarrow> dbl_ge a c" for a b c
    by (cases a; cases b; cases c) simp_all
  have step_ge: "isfinite (coeffOut st) \<longrightarrow> dbl_ge (coeffOut ?st) (coeffOut st)"
    by (insert cn, cases "coeffOut st"; cases ?c) (simp_all add: co no_inf_def)
  have step_ge2: "isfinite ?c \<longrightarrow> dbl_ge (coeffOut ?st) ?c"
    by (insert Cons.prems, cases "coeffOut st"; cases ?c) (simp_all add: co no_inf_def)
  have step_fin: "isfinite (coeffOut ?st) \<longleftrightarrow> isfinite (coeffOut st) \<or> isfinite ?c"
    by (insert cn, cases "coeffOut st"; cases ?c) (simp_all add: co no_inf_def)
  have step_mem: "coeffOut ?st = coeffOut st \<or> coeffOut ?st = ?c"
    by (simp add: co)
  have 1: "no_inf ?r" using ih by simp
  have 2: "?r = coeffOut st \<or> ?r \<in> set (map (xcorr_coeff smpsS smpsL) (d # ds))"
    using ih step_mem by auto
  have 3: "isfinite ?r \<longleftrightarrow> isfinite (coeffOut st)
             \<or> (\<exists>c\<in>set (map (xcorr_coeff smpsS smpsL) (d # ds)). isfinite c)"
    using ih step_fin by auto
  have 4: "isfinite (coeffOut st) \<longrightarrow> dbl_ge ?r (coeffOut st)"
    using ih step_ge step_fin ge_trans by blast
  have 5: "\<forall>c\<in>set (map (xcorr_coeff smpsS smpsL) (d # ds)). isfinite c \<longrightarrow> dbl_ge ?r c"
  proof
    fix c assume c: "c \<in> set (map (xcorr_coeff smpsS smpsL) (d # ds))"
    show "isfinite c \<longrightarrow> dbl_ge ?r c"
    proof (cases "c = ?c")
      case True
      then show ?thesis using ih step_ge2 step_fin ge_trans by blast
    next
      case False
      then have "c \<in> set (map (xcorr_coeff smpsS smpsL) ds)" using c by auto
      then show ?thesis using ih by blast
    qed
  qed
  show ?case unfolding Let_def using 1 2 3 4 5 by simp
qed


lemma quality_check_count:
  "quality_check True c maxs =
     (case c of
        Fin cmax \<Rightarrow>
          if 2 \<le> length (filter (\<lambda>m. isfinite m \<and> dbl_ge m (Fin (cmax - (1 - cmax) / 2))) maxs)
          then NaN else Fin cmax
      | PInf \<Rightarrow> PInf | MInf \<Rightarrow> MInf | NaN \<Rightarrow> NaN)"
  by (cases c) (auto simp: cycle_skipping_count Let_def)


text \<open>
  What the walk does in general: the coefficient kept is the greatest finite coefficient of
  the series, and with the quality check on the result is NaN exactly when two or more of
  the recorded values are finite and at least \<open>T = Cmax - (1 - Cmax) / 2\<close>.
\<close>

lemma xcorr_quality_check_result:
  "samplingFrequency tr1 = samplingFrequency tr2 \<Longrightarrow>
     \<exists>delay. xcorr tr1 tr2 maxDelay True =
       Some (delay,
         (case coeffOut (xcorr_scan tr1 tr2 maxDelay) of
            Fin cmax \<Rightarrow>
              if 2 \<le> length (filter (\<lambda>m. isfinite m \<and> dbl_ge m (Fin (cmax - (1 - cmax) / 2)))
                                 (localMaxs (xcorr_scan tr1 tr2 maxDelay)))
              then NaN else Fin cmax
          | PInf \<Rightarrow> PInf | MInf \<Rightarrow> MInf | NaN \<Rightarrow> NaN))"
  by (simp add: xcorr_def Let_def quality_check_count)

text \<open>
  C1 fails on the code: a local maximum at the last lag is not recorded, because the walk
  records a value only when a later coefficient is smaller. One sample against
  \<open>[-1, 1, -1, 1, 0]\<close> at 1 Hz with \<open>maxDelay = 2\<close> gives the series \<open>-1, 1, -1, 1\<close> for the
  lags -2 to 1: two local maxima, both equal to \<open>Cmax = 1 = T\<close>. Only the first is
  recorded, and the measurement is accepted with coefficient 1. The mirrored series
  \<open>1, -1, 1, -1\<close> has both maxima recorded and is rejected.
\<close>

theorem xcorr_misses_maximum_at_last_lag:
  "xcorr_series \<lparr>startTime = 0, samplingFrequency = 1, data = [1]\<rparr>
       \<lparr>startTime = 0, samplingFrequency = 1, data = [- 1, 1, - 1, 1, 0]\<rparr> 2
     = [Fin (- 1), Fin 1, Fin (- 1), Fin 1]
   \<and> series_local_maxima [Fin (- 1), Fin 1, Fin (- 1), Fin 1] = [Fin 1, Fin 1]
   \<and> coeffOut (xcorr_scan \<lparr>startTime = 0, samplingFrequency = 1, data = [1]\<rparr>
       \<lparr>startTime = 0, samplingFrequency = 1, data = [- 1, 1, - 1, 1, 0]\<rparr> 2) = Fin 1
   \<and> localMaxs (xcorr_scan \<lparr>startTime = 0, samplingFrequency = 1, data = [1]\<rparr>
       \<lparr>startTime = 0, samplingFrequency = 1, data = [- 1, 1, - 1, 1, 0]\<rparr> 2) = [Fin 1]
   \<and> xcorr \<lparr>startTime = 0, samplingFrequency = 1, data = [1]\<rparr>
       \<lparr>startTime = 0, samplingFrequency = 1, data = [- 1, 1, - 1, 1, 0]\<rparr> 2 True
     = Some (- 1, Fin 1)
   \<and> localMaxs (xcorr_scan \<lparr>startTime = 0, samplingFrequency = 1, data = [1]\<rparr>
       \<lparr>startTime = 0, samplingFrequency = 1, data = [1, - 1, 1, - 1, 0]\<rparr> 2) = [Fin 1, Fin 1]
   \<and> xcorr \<lparr>startTime = 0, samplingFrequency = 1, data = [1]\<rparr>
       \<lparr>startTime = 0, samplingFrequency = 1, data = [1, - 1, 1, - 1, 0]\<rparr> 2 True
     = Some (- 2, NaN)"
proof -
  have "[0..<4] = [0, 1, 2, 3]" by (simp add: upt_rec)
  then have "series_local_maxima [Fin (- 1), Fin 1, Fin (- 1), Fin 1] = [Fin 1, Fin 1]"
    by (simp add: series_local_maxima_def)
  then show ?thesis
    by (simp add: xcorr_def xcorr_scan_def xcorr_series_def xcorr_delays_def xcorr_init_def
          trunc_int_def xcorr_step_def xcorr_coeff_def dbl_div_def upto.simps)
qed

subsection \<open>C4: the lags that are evaluated\<close>

lemma xcorr_delays_set: "set (xcorr_delays K) = {- K..<K}"
  by (auto simp: xcorr_delays_def)

text \<open>
  C4 fails on the code: the loop stops before the lag \<open>K\<close>. With one sample against three
  at 1 Hz and \<open>maxDelay = 1\<close> (so \<open>K = 1\<close>) the lags -1 and 0 are evaluated, both with
  coefficient -1, and lag -1 is returned; the lag 1, where the coefficient is 1, the maximum
  over \<open>[-1, 1]\<close>, is never evaluated.
\<close>

theorem xcorr_skips_last_lag:
  "xcorr \<lparr>startTime = 0, samplingFrequency = 1, data = [1]\<rparr>
         \<lparr>startTime = 0, samplingFrequency = 1, data = [- 1, - 1, 1]\<rparr> 1 True = Some (- 1, Fin (- 1))
   \<and> xcorr_series \<lparr>startTime = 0, samplingFrequency = 1, data = [1]\<rparr>
         \<lparr>startTime = 0, samplingFrequency = 1, data = [- 1, - 1, 1]\<rparr> 1 = [Fin (- 1), Fin (- 1)]
   \<and> xcorr_coeff [1] [- 1, - 1, 1] 1 = Fin 1
   \<and> 1 \<notin> set (xcorr_delays (trunc_int (1 * 1)))"
  by (simp add: xcorr_def xcorr_scan_def xcorr_series_def xcorr_delays_def xcorr_init_def
        trunc_int_def xcorr_step_def xcorr_coeff_def dbl_div_def upto.simps)

subsection \<open>C3: swapping the two phases\<close>













subsection \<open>C7: the waveform cache and the exclusion set\<close>

lemma getWaveform_cases:
  fixes env cfg tw ev ph memCache useDiskCache checkSnr st store
  defines "wfId \<equiv> waveformId (env_iso env) ph tw"
  defines "res \<equiv> getWaveform env cfg tw ev ph memCache useDiskCache checkSnr st store"
  shows "(\<exists>p. memCache wfId = Some p \<and> res = (Inr p, memCache, st, store))
       \<or> (memCache wfId = None \<and> wfId \<in> excludedWfs st \<and> res = (Inr None, memCache, st, store))
       \<or> (memCache wfId = None \<and> wfId \<notin> excludedWfs st
            \<and> (\<exists>st'. res = (Inr None, memCache, st', store)
                  \<and> excludedWfs st' = insert wfId (excludedWfs st)))
       \<or> (memCache wfId = None \<and> wfId \<notin> excludedWfs st
            \<and> (\<exists>t. res = (Inr (Some (length store)),
                           memCache(wfId \<mapsto> Some (length store)), st, store @ [t])))
       \<or> (memCache wfId = None \<and> wfId \<notin> excludedWfs st
            \<and> (\<exists>err. res = (Inl err, memCache, st, store)))"
proof (cases "memCache wfId")
  case (Some p)
  then show ?thesis by (simp add: res_def wfId_def getWaveform_def)
next
  case None
  show ?thesis
  proof (cases "wfId \<in> excludedWfs st")
    case True
    then show ?thesis using None by (simp add: res_def wfId_def getWaveform_def)
  next
    case False
    define outcome where "outcome = (\<lambda>x.
          (\<exists>st'. x = (Inr None, memCache, st', store)
             \<and> excludedWfs st' = insert wfId (excludedWfs st))
          \<or> (\<exists>t. x = (Inr (Some (length store)),
                         memCache(wfId \<mapsto> Some (length store)), st, store @ [t]))
          \<or> (\<exists>err :: error. x = (Inl err, memCache, st, store)))"
    have "outcome res"
      unfolding res_def getWaveform_def Let_def wfId_def[symmetric]
      by (cases checkSnr; cases "env_sensorLocation env"; cases "env_channelIsComponent env";
          cases "env_allComponents env")
        (simp_all add: None False outcome_def split: sum.split option.split)
    then show ?thesis using None False unfolding outcome_def by blast
  qed
qed

text \<open>
  One call of \<open>getWaveform\<close>: the exclusion set grows, an entry of the cache is never
  changed, a fingerprint that is excluded and not cached gets no entry, and a cache without
  excluded fingerprints stays so.
\<close>

lemma getWaveform_step:
  assumes "getWaveform env cfg tw ev ph memCache useDiskCache checkSnr st store
             = (r, memCache', st', store')"
  shows "excludedWfs st \<subseteq> excludedWfs st'"
    and "memCache k = Some v \<Longrightarrow> memCache' k = Some v"
    and "memCache k = None \<Longrightarrow> k \<in> excludedWfs st \<Longrightarrow> memCache' k = None"
    and "dom memCache \<inter> excludedWfs st = {} \<Longrightarrow> dom memCache' \<inter> excludedWfs st' = {}"
proof -
  let ?id = "waveformId (env_iso env) ph tw"
  from getWaveform_cases[where memCache = memCache and env = env and ph = ph and tw = tw
      and st = st and cfg = cfg and ev = ev and useDiskCache = useDiskCache
      and checkSnr = checkSnr and store = store] assms
  consider
      (same) "memCache' = memCache" "st' = st"
    | (failed) "memCache ?id = None" "?id \<notin> excludedWfs st"
        "memCache' = memCache" "excludedWfs st' = insert ?id (excludedWfs st)"
    | (loaded) "memCache ?id = None" "?id \<notin> excludedWfs st"
        "memCache' = memCache(?id \<mapsto> Some (length store))" "st' = st"
    by auto
  note cs = this
  show "excludedWfs st \<subseteq> excludedWfs st'"
    by (rule cs) auto
  show "memCache' k = Some v" if "memCache k = Some v"
    using that by (cases rule: cs) auto
  show "memCache' k = None" if "memCache k = None" "k \<in> excludedWfs st"
    using that by (cases rule: cs) auto
  show "dom memCache' \<inter> excludedWfs st' = {}" if "dom memCache \<inter> excludedWfs st = {}"
    using that by (cases rule: cs) auto
qed

lemma getWaveform_hit:
  "memCache (waveformId (env_iso env) ph tw) = Some p \<Longrightarrow>
   getWaveform env cfg tw ev ph memCache useDiskCache checkSnr st store
     = (Inr p, memCache, st, store)"
  by (simp add: getWaveform_def)

lemma getWaveform_excluded:
  "memCache (waveformId (env_iso env) ph tw) = None \<Longrightarrow>
   waveformId (env_iso env) ph tw \<in> excludedWfs st \<Longrightarrow>
   getWaveform env cfg tw ev ph memCache useDiskCache checkSnr st store
     = (Inr None, memCache, st, store)"
  by (simp add: getWaveform_def)

lemma later_inv:
  assumes "later others p q"
  shows "excludedWfs (fst (snd p)) \<subseteq> excludedWfs (fst (snd q))
       \<and> (\<forall>k v. fst p k = Some v \<longrightarrow> fst q k = Some v)
       \<and> (\<forall>k. fst p k = None \<and> k \<in> excludedWfs (fst (snd p)) \<longrightarrow> fst q k = None)
       \<and> (\<not> others \<and> dom (fst p) \<inter> excludedWfs (fst (snd p)) = {}
            \<longrightarrow> dom (fst q) \<inter> excludedWfs (fst (snd q)) = {})"
  using assms
proof (induction rule: later.induct)
  case later_refl
  show ?case by simp
next
  case (later_call memCache st store env cfg tw ev ph useDiskCache checkSnr r memCache' st' store')
  note step = getWaveform_step[OF later_call.hyps(2)]
  from later_call.IH have ih1: "excludedWfs (fst (snd p)) \<subseteq> excludedWfs st"
    and ih2: "\<And>k v. fst p k = Some v \<Longrightarrow> memCache k = Some v"
    and ih3: "\<And>k. fst p k = None \<Longrightarrow> k \<in> excludedWfs (fst (snd p)) \<Longrightarrow> memCache k = None"
    and ih4: "\<not> others \<Longrightarrow> dom (fst p) \<inter> excludedWfs (fst (snd p)) = {}
                \<Longrightarrow> dom memCache \<inter> excludedWfs st = {}"
    by simp_all
  have a: "excludedWfs (fst (snd p)) \<subseteq> excludedWfs st'"
    using ih1 step(1) by blast
  have b: "memCache' k = Some v" if "fst p k = Some v" for k v
    using step(2)[OF ih2[OF that]] .
  have c: "memCache' k = None" if "fst p k = None" "k \<in> excludedWfs (fst (snd p))" for k
  proof -
    have "memCache k = None" using ih3 that by blast
    moreover have "k \<in> excludedWfs st" using ih1 that(2) by blast
    ultimately show ?thesis using step(3) by blast
  qed
  have d: "dom memCache' \<inter> excludedWfs st' = {}"
    if "\<not> others" "dom (fst p) \<inter> excludedWfs (fst (snd p)) = {}"
    using step(4)[OF ih4[OF that]] .
  show ?case using a b c d by simp
next
  case (later_other memCache st store st' store')
  then show ?case by auto
qed

text \<open>
  C7 (as amended). Take a call of \<open>getWaveform\<close>, made on any cache in any state, and let
  the program go on in any way that changes this cache through \<open>getWaveform\<close> only: calls
  on this cache with any arguments and, when \<open>others\<close> is true, calls on other caches and
  changes of trace objects in place. Then

  \<^item> the exclusion set has only grown;
  \<^item> if the first call returned (a pointer or null), a call with the same fingerprint on
    this cache returns the same pointer, or null again, and changes neither the cache nor
    the exclusion set nor the trace objects, whatever its other arguments are and whatever
    the collaborators answer then;
  \<^item> if the first call found no entry in the cache and returned null, the fingerprint is
    excluded and still has no entry;
  \<^item> a first call for an excluded fingerprint without entry in the cache returns null and
    changes nothing;
  \<^item> if this cache is the only one (\<open>others\<close> is false) and held no excluded fingerprint
    before the first call, it holds none afterwards, so a call for an excluded fingerprint
    returns null.

  The memory cache is looked up before the exclusion set: with a second cache the last
  point fails. A first call that throws (the filter cannot be created) excludes and caches
  nothing.
\<close>

theorem getWaveform_cache:
  "getWaveform env cfg tw ev ph memCache useDiskCache checkSnr st store
       = (res, memCache', st', store')
   \<and> later others (memCache', st', store') (memCache'', st'', store'')
   \<and> waveformId (env_iso env') ph' tw' = waveformId (env_iso env) ph tw
   \<longrightarrow>
     excludedWfs st \<subseteq> excludedWfs st' \<and> excludedWfs st' \<subseteq> excludedWfs st''
     \<and> (\<forall>r. res = Inr r \<longrightarrow>
           getWaveform env' cfg' tw' ev' ph' memCache'' useDiskCache' checkSnr' st'' store''
             = (Inr r, memCache'', st'', store''))
     \<and> (res = Inr None \<and> memCache (waveformId (env_iso env) ph tw) = None \<longrightarrow>
           waveformId (env_iso env) ph tw \<in> excludedWfs st''
           \<and> memCache'' (waveformId (env_iso env) ph tw) = None)
     \<and> (waveformId (env_iso env) ph tw \<in> excludedWfs st
          \<and> memCache (waveformId (env_iso env) ph tw) = None \<longrightarrow>
           res = Inr None \<and> memCache' = memCache \<and> st' = st \<and> store' = store)
     \<and> (\<not> others \<and> dom memCache \<inter> excludedWfs st = {} \<longrightarrow>
           dom memCache'' \<inter> excludedWfs st'' = {}
           \<and> (waveformId (env_iso env) ph tw \<in> excludedWfs st'' \<longrightarrow>
                getWaveform env' cfg' tw' ev' ph' memCache'' useDiskCache' checkSnr' st'' store''
                  = (Inr None, memCache'', st'', store'')))"
proof
  let ?id = "waveformId (env_iso env) ph tw"
  assume asm: "getWaveform env cfg tw ev ph memCache useDiskCache checkSnr st store
       = (res, memCache', st', store')
   \<and> later others (memCache', st', store') (memCache'', st'', store'')
   \<and> waveformId (env_iso env') ph' tw' = ?id"
  then have call: "getWaveform env cfg tw ev ph memCache useDiskCache checkSnr st store
       = (res, memCache', st', store')"
    and lat: "later others (memCache', st', store') (memCache'', st'', store'')"
    and same: "waveformId (env_iso env') ph' tw' = ?id"
    by simp_all
  note step = getWaveform_step[OF call]
  from later_inv[OF lat]
  have l1: "excludedWfs st' \<subseteq> excludedWfs st''"
    and l2: "\<And>k v. memCache' k = Some v \<Longrightarrow> memCache'' k = Some v"
    and l3: "\<And>k. memCache' k = None \<Longrightarrow> k \<in> excludedWfs st' \<Longrightarrow> memCache'' k = None"
    and l4: "\<not> others \<Longrightarrow> dom memCache' \<inter> excludedWfs st' = {}
               \<Longrightarrow> dom memCache'' \<inter> excludedWfs st'' = {}"
    by simp_all
  from getWaveform_cases[where memCache = memCache and env = env and ph = ph and tw = tw
      and st = st and cfg = cfg and ev = ev and useDiskCache = useDiskCache
      and checkSnr = checkSnr and store = store] call
  consider
      (hit) p where "memCache ?id = Some p" "res = Inr p" "memCache' = memCache" "st' = st"
        "store' = store"
    | (excluded) "memCache ?id = None" "?id \<in> excludedWfs st"
        "res = Inr None" "memCache' = memCache" "st' = st" "store' = store"
    | (failed) "memCache ?id = None" "?id \<notin> excludedWfs st"
        "res = Inr None" "memCache' = memCache" "excludedWfs st' = insert ?id (excludedWfs st)"
    | (loaded) "memCache ?id = None" "?id \<notin> excludedWfs st"
        "res = Inr (Some (length store))"
        "memCache' = memCache(?id \<mapsto> Some (length store))" "st' = st"
    | (thrown) err where "memCache ?id = None" "?id \<notin> excludedWfs st" "res = Inl err"
    by auto
  then have key1:
    "(\<forall>r. res = Inr r \<longrightarrow>
        memCache' ?id = Some r \<or> (memCache' ?id = None \<and> ?id \<in> excludedWfs st' \<and> r = None))
     \<and> (res = Inr None \<and> memCache ?id = None \<longrightarrow>
           ?id \<in> excludedWfs st' \<and> memCache' ?id = None)
     \<and> (?id \<in> excludedWfs st \<and> memCache ?id = None \<longrightarrow>
           res = Inr None \<and> memCache' = memCache \<and> st' = st \<and> store' = store)"
  proof cases
    case hit
    then show ?thesis by auto
  next
    case excluded
    then show ?thesis by auto
  next
    case failed
    then show ?thesis by auto
  next
    case loaded
    then show ?thesis by auto
  next
    case thrown
    then show ?thesis by auto
  qed
  have key2: "memCache'' ?id = Some r \<or> (memCache'' ?id = None \<and> ?id \<in> excludedWfs st'' \<and> r = None)"
    if "res = Inr r" for r
  proof -
    from key1 have "\<forall>r. res = Inr r \<longrightarrow>
        memCache' ?id = Some r \<or> (memCache' ?id = None \<and> ?id \<in> excludedWfs st' \<and> r = None)"
      by (rule conjunct1)
    with that
    have "memCache' ?id = Some r \<or> (memCache' ?id = None \<and> ?id \<in> excludedWfs st' \<and> r = None)"
      by simp
    then show ?thesis
    proof
      assume "memCache' ?id = Some r"
      then have "memCache'' ?id = Some r" by (rule l2)
      then show ?thesis by simp
    next
      assume a: "memCache' ?id = None \<and> ?id \<in> excludedWfs st' \<and> r = None"
      then have "memCache'' ?id = None" using l3 by simp
      moreover have "?id \<in> excludedWfs st''" using a l1 by (simp add: subsetD)
      ultimately show ?thesis using a by simp
    qed
  qed
  have again: "getWaveform env' cfg' tw' ev' ph' memCache'' useDiskCache' checkSnr' st'' store''
             = (Inr r, memCache'', st'', store'')" if "res = Inr r" for r
    using key2[OF that]
  proof
    assume "memCache'' ?id = Some r"
    then have "memCache'' (waveformId (env_iso env') ph' tw') = Some r" unfolding same .
    then show ?thesis by (rule getWaveform_hit)
  next
    assume a: "memCache'' ?id = None \<and> ?id \<in> excludedWfs st'' \<and> r = None"
    then have "memCache'' (waveformId (env_iso env') ph' tw') = None"
      and "waveformId (env_iso env') ph' tw' \<in> excludedWfs st''"
      unfolding same by simp_all
    then have "getWaveform env' cfg' tw' ev' ph' memCache'' useDiskCache' checkSnr' st'' store''
             = (Inr None, memCache'', st'', store'')"
      by (rule getWaveform_excluded)
    then show ?thesis using a by simp
  qed
  have c3: "?id \<in> excludedWfs st'' \<and> memCache'' ?id = None"
    if "res = Inr None \<and> memCache ?id = None"
  proof -
    from key1 that have a: "?id \<in> excludedWfs st'" and b: "memCache' ?id = None" by simp_all
    from a l1 have "?id \<in> excludedWfs st''" by (simp add: subsetD)
    moreover from l3[OF b a] have "memCache'' ?id = None" .
    ultimately show ?thesis by simp
  qed
  have c5: "dom memCache'' \<inter> excludedWfs st'' = {}"
    if "\<not> others \<and> dom memCache \<inter> excludedWfs st = {}"
  proof -
    from that have no: "\<not> others" and dj: "dom memCache \<inter> excludedWfs st = {}" by simp_all
    from step(4)[OF dj] have "dom memCache' \<inter> excludedWfs st' = {}" .
    then show ?thesis using no by (rule l4[rotated])
  qed
  have c6: "getWaveform env' cfg' tw' ev' ph' memCache'' useDiskCache' checkSnr' st'' store''
                  = (Inr None, memCache'', st'', store'')"
    if "\<not> others \<and> dom memCache \<inter> excludedWfs st = {}" "?id \<in> excludedWfs st''"
  proof -
    from c5[OF that(1)] that(2) have "memCache'' ?id = None" by (auto simp: dom_def)
    then have "memCache'' (waveformId (env_iso env') ph' tw') = None"
      and "waveformId (env_iso env') ph' tw' \<in> excludedWfs st''"
      using that(2) unfolding same by simp_all
    then show ?thesis by (rule getWaveform_excluded)
  qed
  show "excludedWfs st \<subseteq> excludedWfs st' \<and> excludedWfs st' \<subseteq> excludedWfs st''
     \<and> (\<forall>r. res = Inr r \<longrightarrow>
           getWaveform env' cfg' tw' ev' ph' memCache'' useDiskCache' checkSnr' st'' store''
             = (Inr r, memCache'', st'', store''))
     \<and> (res = Inr None \<and> memCache ?id = None \<longrightarrow>
           ?id \<in> excludedWfs st'' \<and> memCache'' ?id = None)
     \<and> (?id \<in> excludedWfs st \<and> memCache ?id = None \<longrightarrow>
           res = Inr None \<and> memCache' = memCache \<and> st' = st \<and> store' = store)
     \<and> (\<not> others \<and> dom memCache \<inter> excludedWfs st = {} \<longrightarrow>
           dom memCache'' \<inter> excludedWfs st'' = {}
           \<and> (?id \<in> excludedWfs st'' \<longrightarrow>
                getWaveform env' cfg' tw' ev' ph' memCache'' useDiskCache' checkSnr' st'' store''
                  = (Inr None, memCache'', st'', store'')))"
  proof (intro conjI allI impI)
    show "excludedWfs st \<subseteq> excludedWfs st'" by (rule step(1))
    show "excludedWfs st' \<subseteq> excludedWfs st''" by (rule l1)
    show "getWaveform env' cfg' tw' ev' ph' memCache'' useDiskCache' checkSnr' st'' store''
             = (Inr r, memCache'', st'', store'')" if "res = Inr r" for r
      using that by (rule again)
    show "?id \<in> excludedWfs st''" if "res = Inr None \<and> memCache ?id = None"
      using c3[OF that] by simp
    show "memCache'' ?id = None" if "res = Inr None \<and> memCache ?id = None"
      using c3[OF that] by simp
    show "res = Inr None" if "?id \<in> excludedWfs st \<and> memCache ?id = None"
      using key1 that by simp
    show "memCache' = memCache" if "?id \<in> excludedWfs st \<and> memCache ?id = None"
      using key1 that by simp
    show "st' = st" if "?id \<in> excludedWfs st \<and> memCache ?id = None"
      using key1 that by simp
    show "store' = store" if "?id \<in> excludedWfs st \<and> memCache ?id = None"
      using key1 that by simp
    show "dom memCache'' \<inter> excludedWfs st'' = {}"
      if "\<not> others \<and> dom memCache \<inter> excludedWfs st = {}"
      using that by (rule c5)
    show "getWaveform env' cfg' tw' ev' ph' memCache'' useDiskCache' checkSnr' st'' store''
                  = (Inr None, memCache'', st'', store'')"
      if "\<not> others \<and> dom memCache \<inter> excludedWfs st = {}" "?id \<in> excludedWfs st''"
      using that by (rule c6)
  qed
qed

lemma S2Nratio_example:
  "S2Nratio_trace \<lparr>startTime = 0, samplingFrequency = 1, data = [1, 1, 1, 1, 1, 1, 1, 1]\<rparr>
      5 (- 2) (- 1) 0 1 = Fin 1"
proof -
  have s1: "dbl_to_int (secToSample (Fin 1) 8 (Fin 3)) = 3"
           "dbl_to_int (secToSample (Fin 1) 8 (Fin 4)) = 4"
           "dbl_to_int (secToSample (Fin 1) 8 (Fin 5)) = 5"
           "dbl_to_int (secToSample (Fin 1) 8 (Fin 6)) = 6"
    by (simp_all add: secToSample_def c_round_def std_max_def std_min_def trunc_int_def)
  have s3: "maxAbs [1, 1, 1, 1, 1, 1, 1, 1] [3..<4] (- 1) = 1"
           "maxAbs [1, 1, 1, 1, 1, 1, 1, 1] [5..<6] (- 1) = 1"
    by (simp_all add: upt_rec)
  have "S2Nratio [1, 1, 1, 1, 1, 1, 1, 1] (Fin 1) (Fin 5) (Fin (- 2)) (Fin (- 1)) (Fin 0) (Fin 1)
          = Inr (Fin 1)"
    by (simp add: S2Nratio_def s1 s3 dbl_div_def)
  then show ?thesis by (simp add: S2Nratio_trace_def)
qed

lemma getWaveform_example_calls:
  "waveformId (env_iso ex_env) (ex_phase 1 False) ex_tw = ''CH.SIMPL..HHZ.5.6''"
  "waveformId (env_iso ex_env) (ex_phase 1 False) ex_tw_other = ''CH.SIMPL..HHZ.0.6''"
  "getWaveform ex_env ex_snr ex_tw (ex_event 1) (ex_phase 1 False) Map.empty False False
       ex_state []
     = (Inr (Some 0), [''CH.SIMPL..HHZ.5.6'' \<mapsto> Some 0], ex_state, [ex_trace])"
  "getWaveform ex_env ex_snr ex_tw (ex_event 1) (ex_phase 1 False) Map.empty True True
       ex_state []
     = (Inr None, Map.empty, ex_state_excl, [])"
  "getWaveform ex_env ex_snr ex_tw (ex_event 1) (ex_phase 1 False) Map.empty True True
       ex_state [ex_trace]
     = (Inr None, Map.empty, ex_state_excl, [ex_trace])"
  "getWaveform ex_env ex_snr ex_tw_other (ex_event 1) (ex_phase 1 False) Map.empty False False
       ex_state_excl []
     = (Inr (Some 0), [''CH.SIMPL..HHZ.0.6'' \<mapsto> Some 0], ex_state_excl, [ex_trace])"
  "getWaveform ex_env ex_snr ex_tw (ex_event 1) (ex_phase 1 False) Map.empty False False
       ex_state_excl []
     = (Inr None, Map.empty, ex_state_excl, [])"
  by (simp_all add: getWaveform_def waveformId_def traceTimeWindowToLoad_def ex_env_def
        ex_snr_def ex_tw_def ex_tw_other_def ex_event_def ex_phase_def ex_state_def
        ex_state_excl_def ex_trace_def Let_def S2Nratio_example)

lemma later_example:
  "later False (Map.empty, ex_state_excl, [])
     ([''CH.SIMPL..HHZ.0.6'' \<mapsto> Some 0], ex_state_excl, [ex_trace])"
  "later True ([''CH.SIMPL..HHZ.5.6'' \<mapsto> Some 0], ex_state, [ex_trace])
     ([''CH.SIMPL..HHZ.5.6'' \<mapsto> Some 0], ex_state_excl, [ex_trace_trimmed])"
proof -
  show "later False (Map.empty, ex_state_excl, [])
     ([''CH.SIMPL..HHZ.0.6'' \<mapsto> Some 0], ex_state_excl, [ex_trace])"
    by (rule later_call[OF later_refl getWaveform_example_calls(6)])
  show "later True ([''CH.SIMPL..HHZ.5.6'' \<mapsto> Some 0], ex_state, [ex_trace])
     ([''CH.SIMPL..HHZ.5.6'' \<mapsto> Some 0], ex_state_excl, [ex_trace_trimmed])"
    by (rule later_other[OF later_refl]) (simp_all add: ex_state_def ex_state_excl_def)
qed

text \<open>
  Three runs. In the first the only cache is empty: a call with the SNR check finds the ratio
  1 below the minimum 2, returns null and excludes the fingerprint; a call for another
  window loads a trace into the cache; a call for the first fingerprint, now without SNR
  check, returns null again and the cache holds no excluded fingerprint. In the second a
  call without SNR check loads the trace into the cache; then the fingerprint is excluded
  through another cache and the caller trims the trace object in place; a call on the first
  cache, with the SNR check, returns the same pointer. In the third a call for a fingerprint
  that is excluded already, on an empty cache, returns null and changes nothing, and so
  does the next call.
\<close>

theorem getWaveform_cache_witness:
  "getWaveform ex_env ex_snr ex_tw (ex_event 1) (ex_phase 1 False) Map.empty True True
       ex_state []
     = (Inr None, Map.empty, ex_state_excl, [])
   \<and> later False (Map.empty, ex_state_excl, [])
         ([''CH.SIMPL..HHZ.0.6'' \<mapsto> Some 0], ex_state_excl, [ex_trace])
   \<and> getWaveform ex_env ex_snr ex_tw (ex_event 2) (ex_phase 2 True)
         [''CH.SIMPL..HHZ.0.6'' \<mapsto> Some 0] False False ex_state_excl [ex_trace]
       = (Inr None, [''CH.SIMPL..HHZ.0.6'' \<mapsto> Some 0], ex_state_excl, [ex_trace])
   \<and> dom [''CH.SIMPL..HHZ.0.6'' \<mapsto> Some (0 :: nat)] \<inter> excludedWfs ex_state_excl = {}
   \<and> getWaveform ex_env ex_snr ex_tw (ex_event 1) (ex_phase 1 False) Map.empty False False
         ex_state []
       = (Inr (Some 0), [''CH.SIMPL..HHZ.5.6'' \<mapsto> Some 0], ex_state, [ex_trace])
   \<and> later True ([''CH.SIMPL..HHZ.5.6'' \<mapsto> Some 0], ex_state, [ex_trace])
         ([''CH.SIMPL..HHZ.5.6'' \<mapsto> Some 0], ex_state_excl, [ex_trace_trimmed])
   \<and> getWaveform ex_env ex_snr ex_tw (ex_event 2) (ex_phase 2 True)
         [''CH.SIMPL..HHZ.5.6'' \<mapsto> Some 0] True True ex_state_excl [ex_trace_trimmed]
       = (Inr (Some 0), [''CH.SIMPL..HHZ.5.6'' \<mapsto> Some 0], ex_state_excl,
          [ex_trace_trimmed])
   \<and> waveformId (env_iso ex_env) (ex_phase 1 False) ex_tw \<in> excludedWfs ex_state_excl
   \<and> getWaveform ex_env ex_snr ex_tw (ex_event 1) (ex_phase 1 False) Map.empty False False
         ex_state_excl []
       = (Inr None, Map.empty, ex_state_excl, [])
   \<and> getWaveform ex_env ex_snr ex_tw (ex_event 2) (ex_phase 2 True) Map.empty True True
         ex_state_excl []
       = (Inr None, Map.empty, ex_state_excl, [])"
proof -
  have same: "waveformId (env_iso ex_env) (ex_phase 2 True) ex_tw
                = waveformId (env_iso ex_env) (ex_phase 1 False) ex_tw"
    by (simp add: waveformId_def ex_phase_def)
  have dj: "dom (Map.empty :: wfCache) \<inter> excludedWfs ex_state = {}"
    by simp
  note run1 = getWaveform_cache [where env = ex_env and cfg = ex_snr and tw = ex_tw
      and ev = "ex_event 1" and ph = "ex_phase 1 False" and memCache = Map.empty
      and useDiskCache = True and checkSnr = True and st = ex_state and store = "[]"
      and res = "Inr None" and memCache' = Map.empty and st' = ex_state_excl and store' = "[]"
      and others = False and memCache'' = "[''CH.SIMPL..HHZ.0.6'' \<mapsto> Some 0]"
      and st'' = ex_state_excl and store'' = "[ex_trace]"
      and env' = ex_env and cfg' = ex_snr and tw' = ex_tw and ev' = "ex_event 2"
      and ph' = "ex_phase 2 True" and useDiskCache' = False and checkSnr' = False,
      THEN mp, OF conjI[OF getWaveform_example_calls(4) conjI[OF later_example(1) same]]]
  note run2 = getWaveform_cache [where env = ex_env and cfg = ex_snr and tw = ex_tw
      and ev = "ex_event 1" and ph = "ex_phase 1 False" and memCache = Map.empty
      and useDiskCache = False and checkSnr = False and st = ex_state and store = "[]"
      and res = "Inr (Some 0)" and memCache' = "[''CH.SIMPL..HHZ.5.6'' \<mapsto> Some 0]"
      and st' = ex_state and store' = "[ex_trace]"
      and others = True and memCache'' = "[''CH.SIMPL..HHZ.5.6'' \<mapsto> Some 0]"
      and st'' = ex_state_excl and store'' = "[ex_trace_trimmed]"
      and env' = ex_env and cfg' = ex_snr and tw' = ex_tw and ev' = "ex_event 2"
      and ph' = "ex_phase 2 True" and useDiskCache' = True and checkSnr' = True,
      THEN mp, OF conjI[OF getWaveform_example_calls(3) conjI[OF later_example(2) same]]]
  note run3 = getWaveform_cache [where env = ex_env and cfg = ex_snr and tw = ex_tw
      and ev = "ex_event 1" and ph = "ex_phase 1 False" and memCache = Map.empty
      and useDiskCache = False and checkSnr = False and st = ex_state_excl and store = "[]"
      and res = "Inr None" and memCache' = Map.empty and st' = ex_state_excl and store' = "[]"
      and others = True and memCache'' = Map.empty
      and st'' = ex_state_excl and store'' = "[]"
      and env' = ex_env and cfg' = ex_snr and tw' = ex_tw and ev' = "ex_event 2"
      and ph' = "ex_phase 2 True" and useDiskCache' = True and checkSnr' = True,
      THEN mp, OF conjI[OF getWaveform_example_calls(7) conjI[OF later_refl same]]]
  have ex: "waveformId (env_iso ex_env) (ex_phase 1 False) ex_tw \<in> excludedWfs ex_state_excl"
    unfolding getWaveform_example_calls(1) by (simp add: ex_state_excl_def)
  from run3 have e: "getWaveform ex_env ex_snr ex_tw (ex_event 2) (ex_phase 2 True) Map.empty
         True True ex_state_excl []
       = (Inr None, Map.empty, ex_state_excl, [])"
    by simp
  from run1 have a: "getWaveform ex_env ex_snr ex_tw (ex_event 2) (ex_phase 2 True)
         [''CH.SIMPL..HHZ.0.6'' \<mapsto> Some 0] False False ex_state_excl [ex_trace]
       = (Inr None, [''CH.SIMPL..HHZ.0.6'' \<mapsto> Some 0], ex_state_excl, [ex_trace])"
    by simp
  from run1 dj
  have b: "dom [''CH.SIMPL..HHZ.0.6'' \<mapsto> Some (0 :: nat)] \<inter> excludedWfs ex_state_excl = {}"
    by simp
  from run2 have c: "getWaveform ex_env ex_snr ex_tw (ex_event 2) (ex_phase 2 True)
         [''CH.SIMPL..HHZ.5.6'' \<mapsto> Some 0] True True ex_state_excl [ex_trace_trimmed]
       = (Inr (Some 0), [''CH.SIMPL..HHZ.5.6'' \<mapsto> Some 0], ex_state_excl,
          [ex_trace_trimmed])"
    by simp
  show ?thesis
    using a b c e ex getWaveform_example_calls(3,4,7) later_example by simp
qed

text \<open>
  The claim as stated fails when more than one memory cache is in use, as in the program
  (the catalog cache \<open>_wfCache\<close> and the temporary cache of the artificial phases). A first
  call without SNR check loads the trace into one cache and returns the new object; a
  second call for the same fingerprint, on another cache and with the SNR check, finds the
  ratio 1 below the minimum 2, returns null and excludes the fingerprint: two calls with the
  same fingerprint, two results. A third call on the first cache still returns the trace
  object, although the fingerprint is excluded. The inventory does not know the sensor
  location in these calls: the trace is loaded all the same, and the first call excludes
  nothing.
\<close>

theorem getWaveform_sticky_counterexample:
  "getWaveform ex_env ex_snr ex_tw (ex_event 1) (ex_phase 1 False) Map.empty False False
       ex_state []
     = (Inr (Some 0), [''CH.SIMPL..HHZ.5.6'' \<mapsto> Some 0], ex_state, [ex_trace])
   \<and> getWaveform ex_env ex_snr ex_tw (ex_event 1) (ex_phase 1 False) Map.empty True True
         ex_state [ex_trace]
     = (Inr None, Map.empty, ex_state_excl, [ex_trace])
   \<and> waveformId (env_iso ex_env) (ex_phase 1 False) ex_tw \<in> excludedWfs ex_state_excl
   \<and> getWaveform ex_env ex_snr ex_tw (ex_event 1) (ex_phase 1 False)
         [''CH.SIMPL..HHZ.5.6'' \<mapsto> Some 0] True True ex_state_excl [ex_trace]
     = (Inr (Some 0), [''CH.SIMPL..HHZ.5.6'' \<mapsto> Some 0], ex_state_excl, [ex_trace])"
  using getWaveform_example_calls(1,3,5)
    getWaveform_hit [where env = ex_env and ph = "ex_phase 1 False" and tw = ex_tw
      and memCache = "[''CH.SIMPL..HHZ.5.6'' \<mapsto> Some 0]" and p = "Some 0"
      and cfg = ex_snr and ev = "ex_event 1" and useDiskCache = True and checkSnr = True
      and st = ex_state_excl and store = "[ex_trace]"]
  by (simp add: ex_state_excl_def)

end
